theory Spec2Isabelle
  imports Complex_Main
begin

section \<open>Data model of \<^verbatim>\<open>game.ts\<close>\<close>

text \<open>
  The monolithic variant of the game (\<^verbatim>\<open>src/game.ts\<close>) keeps its state in module-level
  variables. They are collected in the record \<open>Game\<close>. JavaScript numbers are modelled as
  \<open>real\<close> (times, angles, positions) or \<open>int\<close>/\<open>nat\<close> (health, tile indices); infinities
  and rounding of doubles are outside the model, and so is \<open>NaN\<close> except in the components
  of a fall direction, the one place where the game logic can produce it. Everything that only poses
  meshes (rotation, opacity of materials, limb animation, highlight, particles, water and
  flower sway) is left out, since no game-logic variable depends on it.
\<close>

datatype terrain = Grass | Water | Path

datatype decorationType = TreeDeco | RockDeco | FlowerDeco

datatype treeState = Healthy | Falling | Fading

type_synonym ref = nat

text \<open>A component of a \<^verbatim>\<open>THREE.Vector3\<close>: a real number or \<^verbatim>\<open>NaN\<close>.\<close>

datatype number = Num real | NaN

type_synonym Vector3 = "number \<times> number \<times> number"

text \<open>\<^verbatim>\<open>interface Decoration\<close>: the optional fields (\<^verbatim>\<open>health?\<close>, \<^verbatim>\<open>state?\<close>, ...) are options.\<close>

record Decoration =
  dtype :: decorationType
  variant :: nat
  offsetX :: real
  offsetY :: real
  health :: "int option"
  state :: "treeState option"
  fallAngle :: "real option"
  fallDirection :: "Vector3 option"
  opacity :: "real option"

text \<open>
  \<^verbatim>\<open>interface Tile\<close>. A decoration is a JavaScript object that is shared between the tile
  and the list \<^verbatim>\<open>fallingTrees\<close>, and \<^verbatim>\<open>updateFallingTrees\<close> compares by identity, so
  the tile holds a reference into an object store.
\<close>

record Tile =
  t_x :: nat
  t_y :: nat
  ttype :: terrain
  decoration :: "ref option"

record Player =
  p_x :: real
  p_y :: real
  targetX :: real
  targetY :: real
  direction :: real
  p_isMoving :: bool
  animTime :: real

record InputState =
  up :: bool
  down :: bool
  left :: bool
  right :: bool

text \<open>
  The environment that world generation works in: the stream of values returned by
  \<^verbatim>\<open>Math.random()\<close> with the number of draws made so far, the store of decoration
  objects with its allocation counter, and the decorations whose mesh is attached to the
  scene.
\<close>

record Env =
  rnd :: "nat \<Rightarrow> real"
  rpos :: nat
  heap :: "ref \<Rightarrow> Decoration"
  nextRef :: ref
  scene :: "ref set"

record Game = Env +
  world :: "Tile list list"
  player :: Player
  input :: InputState
  isMoving :: bool
  chopCooldown :: real
  fallingTrees :: "ref list"
  lastTime :: real

definition WORLD_SIZE :: nat where
  "WORLD_SIZE = 20"

definition MOVE_SPEED :: real where
  "MOVE_SPEED = 5"

section \<open>Game logic of \<^verbatim>\<open>game.ts\<close>\<close>

text \<open>\<^verbatim>\<open>tile.decoration.health ?? 100\<close>\<close>

definition healthOr100 :: "'a Decoration_scheme \<Rightarrow> int" where
  "healthOr100 d = (case health d of None \<Rightarrow> 100 | Some h \<Rightarrow> h)"

text \<open>
  The bounds test shared by \<^verbatim>\<open>isWalkable\<close>, \<^verbatim>\<open>damageTree\<close> and \<^verbatim>\<open>updatePlayer\<close>:
  \<^verbatim>\<open>tileX < 0 || tileX >= world.length || tileY < 0 || tileY >= world[0].length\<close>.
  When \<^verbatim>\<open>world\<close> is empty the first two disjuncts already cover every \<^verbatim>\<open>tileX\<close>, so
  \<^verbatim>\<open>world[0]\<close> is only read when it exists.
\<close>

definition outOfBounds :: "Tile list list \<Rightarrow> int \<Rightarrow> int \<Rightarrow> bool" where
  "outOfBounds w tileX tileY \<longleftrightarrow>
     tileX < 0 \<or> tileX \<ge> int (length w) \<or> tileY < 0 \<or> tileY \<ge> int (length (w ! 0))"

text \<open>
  \<^verbatim>\<open>function isWalkable(x, y)\<close>, with its early returns in the source's order. The read
  \<^verbatim>\<open>world[tileX][tileY]\<close> is in range whenever all columns are as long as the first one
  (\<open>wf_world\<close> below); the world is assigned by \<^verbatim>\<open>generateWorld\<close> only.
\<close>

definition isWalkable :: "'a Game_scheme \<Rightarrow> real \<Rightarrow> real \<Rightarrow> bool" where
  "isWalkable g x y =
     (let tileX = \<lfloor>x\<rfloor>; tileY = \<lfloor>y\<rfloor> in
      if outOfBounds (world g) tileX tileY then False
      else
        let tile = world g ! nat tileX ! nat tileY in
        if ttype tile = Water then False
        else case decoration tile of
          None \<Rightarrow> True
        | Some r \<Rightarrow>
            if dtype (heap g r) = RockDeco then False
            else if dtype (heap g r) = TreeDeco then healthOr100 (heap g r) \<le> 0
            else True)"

text \<open>
  The fall direction computed in \<^verbatim>\<open>damageTree\<close>,
  \<^verbatim>\<open>new THREE.Vector3(dx / dist, 0, dy / dist)\<close>: from the player to the centre of the
  tile, normalised. The distance is 0 only for a player standing on the centre of the
  tile, where \<^verbatim>\<open>dx\<close> and \<^verbatim>\<open>dy\<close> are 0 as well and both quotients are \<^verbatim>\<open>0 / 0\<close>, which
  is \<^verbatim>\<open>NaN\<close> in JavaScript.
\<close>

definition awayFromPlayer :: "Tile \<Rightarrow> 'a Player_scheme \<Rightarrow> Vector3" where
  "awayFromPlayer tile p =
     (let dx = real (t_x tile) + 0.5 - p_x p;
          dy = real (t_y tile) + 0.5 - p_y p;
          dist = sqrt (dx * dx + dy * dy)
      in if dist = 0 then (NaN, Num 0, NaN)
         else (Num (dx / dist), Num 0, Num (dy / dist)))"

text \<open>
  \<^verbatim>\<open>function damageTree(x, y)\<close>: returns whether the tree started to fall, and the new
  state.
\<close>

definition damageTree :: "real \<Rightarrow> real \<Rightarrow> Game \<Rightarrow> bool \<times> Game" where
  "damageTree x y g =
     (let tileX = \<lfloor>x\<rfloor>; tileY = \<lfloor>y\<rfloor> in
      if outOfBounds (world g) tileX tileY then (False, g)
      else
        let tile = world g ! nat tileX ! nat tileY in
        case decoration tile of
          None \<Rightarrow> (False, g)
        | Some r \<Rightarrow>
            if dtype (heap g r) = TreeDeco \<and> healthOr100 (heap g r) > 0 then
              let h = healthOr100 (heap g r) - 34;
                  d1 = (heap g r)\<lparr>health := Some h\<rparr>
              in
                if h \<le> 0 then
                  let d2 = d1\<lparr>state := Some Falling, fallAngle := Some 0,
                              fallDirection := Some (awayFromPlayer tile (player g)),
                              opacity := Some 1\<rparr>
                  in (True, g\<lparr>heap := (heap g)(r := d2),
                               fallingTrees := fallingTrees g @ [r]\<rparr>)
                else (False, g\<lparr>heap := (heap g)(r := d1)\<rparr>)
            else (False, g))"

text \<open>
  \<^verbatim>\<open>Math.atan2(dy, dx)\<close> on reals (no signed zeros: the intent components are sums of
  \<open>\<plusminus>1\<close> starting from \<open>+0\<close>, and differences of coordinates).
\<close>

definition atan2 :: "real \<Rightarrow> real \<Rightarrow> real" where
  "atan2 y x =
     (if x > 0 then arctan (y / x)
      else if x < 0 then (if y \<ge> 0 then arctan (y / x) + pi else arctan (y / x) - pi)
      else if y > 0 then pi / 2
      else if y < 0 then - (pi / 2)
      else 0)"

text \<open>
  The directional intent read from the key snapshot:
  \<^verbatim>\<open>if (input.up) dy -= 1; if (input.down) dy += 1; if (input.left) dx -= 1; if (input.right) dx += 1;\<close>
\<close>

definition intentX :: "InputState \<Rightarrow> int" where
  "intentX i = (if left i then - 1 else 0) + (if right i then 1 else 0)"

definition intentY :: "InputState \<Rightarrow> int" where
  "intentY i = (if up i then - 1 else 0) + (if down i then 1 else 0)"

text \<open>
  The tile the idle branch of \<^verbatim>\<open>updatePlayer\<close> aims at:
  \<^verbatim>\<open>Math.round(player.x) + dx\<close>, \<^verbatim>\<open>Math.round(player.y) + dy\<close>. \<^verbatim>\<open>Math.round\<close> rounds
  halves up, as \<open>round\<close> does.
\<close>

definition intentTarget :: "'a Game_scheme \<Rightarrow> int \<times> int" where
  "intentTarget g =
     (round (p_x (player g)) + intentX (input g), round (p_y (player g)) + intentY (input g))"

text \<open>
  The attempt to chop in the blocked branch of \<^verbatim>\<open>updatePlayer\<close>: guarded by the
  cooldown, the bounds and the decoration being a tree; it calls \<^verbatim>\<open>damageTree\<close> and
  re-arms the cooldown.
\<close>

definition tryChop :: "int \<Rightarrow> int \<Rightarrow> Game \<Rightarrow> Game" where
  "tryChop targetX' targetY' g =
     (if chopCooldown g \<le> 0 then
        let tileX = \<lfloor>real_of_int targetX'\<rfloor>; tileY = \<lfloor>real_of_int targetY'\<rfloor> in
        if tileX \<ge> 0 \<and> tileX < int (length (world g)) \<and>
           tileY \<ge> 0 \<and> tileY < int (length (world g ! 0)) then
          let tile = world g ! nat tileX ! nat tileY in
          case decoration tile of
            None \<Rightarrow> g
          | Some r \<Rightarrow>
              if dtype (heap g r) = TreeDeco then
                (snd (damageTree (real_of_int targetX') (real_of_int targetY') g))
                  \<lparr>chopCooldown := 300\<rparr>
              else g
        else g
      else g)"

text \<open>\<^verbatim>\<open>function updatePlayer(deltaTime)\<close>, up to the mesh updates.\<close>

definition updatePlayer :: "real \<Rightarrow> Game \<Rightarrow> Game" where
  "updatePlayer deltaTime g =
     (let dt = deltaTime / 1000; p = player g in
      if isMoving g then
        let dx = targetX p - p_x p;
            dy = targetY p - p_y p;
            dist = sqrt (dx * dx + dy * dy)
        in
          if dist < 0.01 then
            g\<lparr>player := p\<lparr>p_x := targetX p, p_y := targetY p, p_isMoving := False\<rparr>,
              isMoving := False\<rparr>
          else
            let step = min (MOVE_SPEED * dt) dist in
            g\<lparr>player := p\<lparr>p_x := p_x p + (dx / dist) * step,
                            p_y := p_y p + (dy / dist) * step,
                            direction := atan2 dy dx,
                            animTime := animTime p + deltaTime * 0.01,
                            p_isMoving := True\<rparr>\<rparr>
      else
        let dx = intentX (input g); dy = intentY (input g) in
        if dx \<noteq> 0 \<or> dy \<noteq> 0 then
          let targetX' = round (p_x p) + dx;
              targetY' = round (p_y p) + dy;
              g1 = g\<lparr>player := p\<lparr>direction := atan2 (real_of_int dy) (real_of_int dx)\<rparr>\<rparr>
          in
            if isWalkable g1 (real_of_int targetX') (real_of_int targetY') then
              g1\<lparr>player := (player g1)\<lparr>targetX := real_of_int targetX',
                                         targetY := real_of_int targetY'\<rparr>,
                 isMoving := True\<rparr>
            else tryChop targetX' targetY' g1
        else g)"

text \<open>
  The innermost loops of the removal in \<^verbatim>\<open>updateFallingTrees\<close>: in every column the
  first tile whose decoration is the removed object is cleared (\<^verbatim>\<open>break\<close> leaves the
  inner loop only). The loops run to \<^verbatim>\<open>WORLD_SIZE\<close>, the size of the generated world.
\<close>

fun clearFirst :: "ref \<Rightarrow> Tile list \<Rightarrow> Tile list" where
  "clearFirst r [] = []"
| "clearFirst r (t # ts) =
     (if decoration t = Some r then t\<lparr>decoration := None\<rparr> # ts else t # clearFirst r ts)"

definition clearDecoration :: "ref \<Rightarrow> Tile list list \<Rightarrow> Tile list list" where
  "clearDecoration r w = map (clearFirst r) w"

text \<open>
  The body of the loop of \<^verbatim>\<open>updateFallingTrees\<close> for index \<open>i\<close> of \<^verbatim>\<open>fallingTrees\<close>.
  The falling branch reads \<^verbatim>\<open>tree.fallDirection!\<close> to pose the mesh; \<^verbatim>\<open>damageTree\<close> sets
  it before the tree enters the list.
\<close>

definition updateFallingTree :: "real \<Rightarrow> nat \<Rightarrow> Game \<Rightarrow> Game" where
  "updateFallingTree dt i g =
     (let r = fallingTrees g ! i; tree = heap g r in
      if state tree = Some Falling then
        let a = (case fallAngle tree of None \<Rightarrow> 0 | Some a \<Rightarrow> a) + dt * 2.5 in
        if a \<ge> pi / 2 then
          g\<lparr>heap := (heap g)(r := tree\<lparr>fallAngle := Some (pi / 2), state := Some Fading\<rparr>)\<rparr>
        else g\<lparr>heap := (heap g)(r := tree\<lparr>fallAngle := Some a\<rparr>)\<rparr>
      else if state tree = Some Fading then
        let opa = (case opacity tree of None \<Rightarrow> 1 | Some v \<Rightarrow> v) - dt * 2 in
        if opa \<le> 0 then
          g\<lparr>heap := (heap g)(r := tree\<lparr>opacity := Some opa\<rparr>),
            scene := scene g - {r},
            fallingTrees := take i (fallingTrees g) @ drop (Suc i) (fallingTrees g),
            world := clearDecoration r (world g)\<rparr>
        else g\<lparr>heap := (heap g)(r := tree\<lparr>opacity := Some opa\<rparr>)\<rparr>
      else g)"

text \<open>\<^verbatim>\<open>for (let i = fallingTrees.length - 1; i >= 0; i--)\<close>: \<open>fallingLoop dt n\<close> runs the
  body for the indices \<open>n - 1\<close> down to \<open>0\<close>.\<close>

fun fallingLoop :: "real \<Rightarrow> nat \<Rightarrow> Game \<Rightarrow> Game" where
  "fallingLoop dt 0 g = g"
| "fallingLoop dt (Suc i) g = fallingLoop dt i (updateFallingTree dt i g)"

definition updateFallingTrees :: "real \<Rightarrow> Game \<Rightarrow> Game" where
  "updateFallingTrees deltaTime g = fallingLoop (deltaTime / 1000) (length (fallingTrees g)) g"

text \<open>\<^verbatim>\<open>function update(deltaTime)\<close>\<close>

definition update :: "real \<Rightarrow> Game \<Rightarrow> Game" where
  "update deltaTime g =
     updateFallingTrees deltaTime
       (updatePlayer deltaTime
          (if chopCooldown g > 0 then g\<lparr>chopCooldown := chopCooldown g - deltaTime\<rparr> else g))"

text \<open>
  \<^verbatim>\<open>function gameLoop(currentTime)\<close>: the frame delta is clamped to 50 ms. Key events
  change \<^verbatim>\<open>input\<close> between frames.
\<close>

definition gameLoop :: "real \<Rightarrow> Game \<Rightarrow> Game" where
  "gameLoop currentTime g =
     update (min (currentTime - lastTime g) 50) (g\<lparr>lastTime := currentTime\<rparr>)"

text \<open>
  One frame of a session: the browser calls \<^verbatim>\<open>gameLoop\<close> with the time stamp \<open>fst f\<close>
  while the key handlers have left the snapshot \<open>snd f\<close> in \<^verbatim>\<open>input\<close>.
\<close>

definition frame :: "real \<times> InputState \<Rightarrow> Game \<Rightarrow> Game" where
  "frame f g = gameLoop (fst f) (g\<lparr>input := snd f\<rparr>)"

fun frames :: "(real \<times> InputState) list \<Rightarrow> Game \<Rightarrow> Game" where
  "frames [] g = g"
| "frames (f # fs) g = frames fs (frame f g)"

section \<open>World generation of \<^verbatim>\<open>game.ts\<close>\<close>

definition random :: "Env \<Rightarrow> real \<times> Env" where
  "random e = (rnd e (rpos e), e\<lparr>rpos := Suc (rpos e)\<rparr>)"

text \<open>Draws whose values only shape a mesh (five in \<^verbatim>\<open>createTreeMesh\<close>, eleven in
  \<^verbatim>\<open>createRockMesh\<close>, one in \<^verbatim>\<open>createFlowerMesh\<close>).\<close>

definition skipRandom :: "nat \<Rightarrow> Env \<Rightarrow> Env" where
  "skipRandom n e = e\<lparr>rpos := rpos e + n\<rparr>"

text \<open>A new decoration object whose mesh is added to the scene.\<close>

definition newDecoration :: "Decoration \<Rightarrow> Env \<Rightarrow> ref \<times> Env" where
  "newDecoration d e =
     (nextRef e, e\<lparr>heap := (heap e)(nextRef e := d), nextRef := Suc (nextRef e),
                   scene := insert (nextRef e) (scene e)\<rparr>)"

definition distFromCenter :: "nat \<Rightarrow> nat \<Rightarrow> real" where
  "distFromCenter x y =
     sqrt ((real x - real WORLD_SIZE / 2) ^ 2 + (real y - real WORLD_SIZE / 2) ^ 2)"

definition distFromEdge :: "nat \<Rightarrow> nat \<Rightarrow> int" where
  "distFromEdge x y =
     min (min (int x) (int y))
         (min (int WORLD_SIZE - 1 - int x) (int WORLD_SIZE - 1 - int y))"

definition plainDecoration :: "decorationType \<Rightarrow> nat \<Rightarrow> real \<Rightarrow> real \<Rightarrow> Decoration" where
  "plainDecoration k v ox oy =
     \<lparr>dtype = k, variant = v, offsetX = ox, offsetY = oy, health = None, state = None,
      fallAngle = None, fallDirection = None, opacity = None\<rparr>"

text \<open>The decoration branch of \<^verbatim>\<open>createTile\<close> (grass tile off the border).\<close>

definition createDecoration :: "Env \<Rightarrow> ref option \<times> Env" where
  "createDecoration e0 =
     (let (rand, e1) = random e0;
          (u, e2) = random e1;
          (v, e3) = random e2;
          ox = (u - 0.5) * 0.6;
          oy = (v - 0.5) * 0.6
      in
        if rand < 0.30 then
          let (w, e4) = random e3;
              (r, e5) = newDecoration
                 ((plainDecoration TreeDeco (nat \<lfloor>w * 3\<rfloor>) ox oy)
                    \<lparr>health := Some 100, state := Some Healthy\<rparr>) (skipRandom 5 e4)
          in (Some r, e5)
        else if rand < 0.35 then
          let (w, e4) = random e3;
              (r, e5) = newDecoration (plainDecoration RockDeco (nat \<lfloor>w * 2\<rfloor>) ox oy)
                 (skipRandom 11 e4)
          in (Some r, e5)
        else if rand < 0.45 then
          let (w, e4) = random e3;
              (r, e5) = newDecoration (plainDecoration FlowerDeco (nat \<lfloor>w * 4\<rfloor>) ox oy)
                 (skipRandom 1 e4)
          in (Some r, e5)
        else (None, e3))"

text \<open>\<^verbatim>\<open>function createTile(x, y)\<close>. \<^verbatim>\<open>Math.random() < 0.05 && distFromEdge > 1\<close> draws
  before it looks at the edge distance.\<close>

definition createTile :: "nat \<Rightarrow> nat \<Rightarrow> Env \<Rightarrow> Tile \<times> Env" where
  "createTile x y e0 =
     (let (ty, e1) =
            (if distFromCenter x y < 3 then (Water, e0)
             else
               let (r, e) = random e0 in
               if r < 0.05 \<and> distFromEdge x y > 1 then (Path, e) else (Grass, e));
          (deco, e2) =
            (if ty = Grass \<and> distFromEdge x y > 0 then createDecoration e1 else (None, e1))
      in (\<lparr>t_x = x, t_y = y, ttype = ty, decoration = deco\<rparr>, e2))"

text \<open>The two loops of \<^verbatim>\<open>generateWorld\<close>.\<close>

fun createColumn :: "nat \<Rightarrow> nat list \<Rightarrow> Env \<Rightarrow> Tile list \<times> Env" where
  "createColumn x [] e = ([], e)"
| "createColumn x (y # ys) e =
     (let (t, e1) = createTile x y e;
          (ts, e2) = createColumn x ys e1
      in (t # ts, e2))"

fun createColumns :: "nat list \<Rightarrow> Env \<Rightarrow> Tile list list \<times> Env" where
  "createColumns [] e = ([], e)"
| "createColumns (x # xs) e =
     (let (c, e1) = createColumn x [0..<WORLD_SIZE] e;
          (cs, e2) = createColumns xs e1
      in (c # cs, e2))"

definition generateWorld :: "Env \<Rightarrow> Tile list list \<times> Env" where
  "generateWorld e = createColumns [0..<WORLD_SIZE] e"

text \<open>The test of \<^verbatim>\<open>getSpawnPosition\<close> on one tile.\<close>

definition spawnCandidate :: "(ref \<Rightarrow> Decoration) \<Rightarrow> Tile \<Rightarrow> bool" where
  "spawnCandidate h tile \<longleftrightarrow>
     ttype tile \<noteq> Water \<and>
     (case decoration tile of
        None \<Rightarrow> True
      | Some r \<Rightarrow> dtype (h r) \<noteq> TreeDeco \<and> dtype (h r) \<noteq> RockDeco)"

definition validPositions :: "Tile list list \<Rightarrow> (ref \<Rightarrow> Decoration) \<Rightarrow> (nat \<times> nat) list" where
  "validPositions w h =
     concat (map (\<lambda>x. map (\<lambda>y. (x, y))
                        (filter (\<lambda>y. spawnCandidate h (w ! x ! y)) [0..<WORLD_SIZE]))
                 [0..<WORLD_SIZE])"

text \<open>\<^verbatim>\<open>function getSpawnPosition()\<close>: the random index is drawn only when there is a
  candidate.\<close>

definition getSpawnPosition :: "Tile list list \<Rightarrow> Env \<Rightarrow> (nat \<times> nat) \<times> Env" where
  "getSpawnPosition w e =
     (let vs = validPositions w (heap e) in
      if length vs > 0 then
        let (u, e1) = random e in (vs ! nat \<lfloor>u * real (length vs)\<rfloor>, e1)
      else ((WORLD_SIZE div 2, WORLD_SIZE div 2), e))"

definition createPlayer :: "nat \<Rightarrow> nat \<Rightarrow> Player" where
  "createPlayer x y =
     \<lparr>p_x = real x, p_y = real y, targetX = real x, targetY = real y, direction = 0,
      p_isMoving = False, animTime = 0\<rparr>"

text \<open>
  \<^verbatim>\<open>function init()\<close>: the state handed to the first frame, for the stream \<open>rs\<close> of random
  draws and the time \<open>t0\<close> read from \<^verbatim>\<open>performance.now()\<close>.
\<close>

definition emptyEnv :: "(nat \<Rightarrow> real) \<Rightarrow> Env" where
  "emptyEnv rs =
     \<lparr>rnd = rs, rpos = 0, heap = (\<lambda>_. plainDecoration FlowerDeco 0 0 0), nextRef = 0,
      scene = {}\<rparr>"

definition init :: "(nat \<Rightarrow> real) \<Rightarrow> real \<Rightarrow> Game" where
  "init rs t0 =
     (let (w, e1) = generateWorld (emptyEnv rs);
          (spawnPos, e2) = getSpawnPosition w e1
      in \<lparr>rnd = rnd e2, rpos = rpos e2, heap = heap e2, nextRef = nextRef e2,
          scene = scene e2, world = w,
          player = createPlayer (fst spawnPos) (snd spawnPos),
          input = \<lparr>up = False, down = False, left = False, right = False\<rparr>,
          isMoving = False, chopCooldown = 0, fallingTrees = [], lastTime = t0\<rparr>)"

section \<open>The tree entity of \<^verbatim>\<open>tree.ts\<close>\<close>

text \<open>
  The entity variant keeps a tree as one object with its own \<^verbatim>\<open>damage\<close> and \<^verbatim>\<open>update\<close>
  methods and an explicit \<^verbatim>\<open>isWalkable\<close> field. \<^verbatim>\<open>Date.now()\<close> is a parameter;
  \<open>treeMeshInScene\<close> records whether \<^verbatim>\<open>treeMesh\<close> is attached to the scene.
\<close>

record Tree =
  tree_x :: nat
  tree_y :: nat
  tree_isWalkable :: bool
  tree_health :: int
  tree_state :: treeState
  isDestroyed :: bool
  tree_fallAngle :: real
  tree_fallDirection :: "Vector3 option"
  tree_opacity :: real
  shakeEndTime :: real
  baseX :: real
  baseZ :: real
  treeMeshInScene :: bool

text \<open>The object literal built by \<^verbatim>\<open>createTree\<close>; the two offsets are its random draws.\<close>

definition createTree :: "nat \<Rightarrow> nat \<Rightarrow> real \<Rightarrow> real \<Rightarrow> Tree" where
  "createTree x y offX offY =
     \<lparr>tree_x = x, tree_y = y, tree_isWalkable = False, tree_health = 100,
      tree_state = Healthy, isDestroyed = False, tree_fallAngle = 0,
      tree_fallDirection = None, tree_opacity = 1, shakeEndTime = 0,
      baseX = real x + 0.5 + offX, baseZ = real y + 0.5 + offY, treeMeshInScene = True\<rparr>"

text \<open>\<^verbatim>\<open>Tree.damage(fallDirection)\<close>\<close>

definition damage :: "real \<Rightarrow> Vector3 \<Rightarrow> Tree \<Rightarrow> Tree" where
  "damage now dir t =
     (if tree_health t \<le> 0 then t
      else
        let t1 = t\<lparr>tree_health := tree_health t - 34, shakeEndTime := now + 150\<rparr> in
        if tree_health t1 \<le> 0 then
          t1\<lparr>tree_state := Falling, tree_fallAngle := 0,
             tree_fallDirection := Some dir, tree_isWalkable := True\<rparr>
        else t1)"

text \<open>
  \<^verbatim>\<open>Tree.update(deltaTime)\<close>. The healthy branch only shakes the mesh. The falling branch
  reads \<^verbatim>\<open>this.fallDirection!\<close> to pose the mesh; \<^verbatim>\<open>damage\<close> sets it together with the
  state.
\<close>

definition tree_update :: "real \<Rightarrow> Tree \<Rightarrow> Tree" where
  "tree_update deltaTime t =
     (let dt = deltaTime / 1000 in
      if tree_state t = Falling then
        let a = tree_fallAngle t + dt * 2.5 in
        if a \<ge> pi / 2 then t\<lparr>tree_fallAngle := pi / 2, tree_state := Fading\<rparr>
        else t\<lparr>tree_fallAngle := a\<rparr>
      else if tree_state t = Fading then
        let t1 = t\<lparr>tree_opacity := tree_opacity t - dt * 2\<rparr> in
        if tree_opacity t1 \<le> 0 then t1\<lparr>treeMeshInScene := False, isDestroyed := True\<rparr>
        else t1
      else t)"

section \<open>The chop of \<^verbatim>\<open>src/unnamed/part_004\<close>\<close>

text \<open>
  The variant of the game in \<^verbatim>\<open>src/unnamed/part_004\<close> has the \<^verbatim>\<open>isWalkable\<close> of
  \<^verbatim>\<open>game.ts\<close>, and its \<^verbatim>\<open>damageTree\<close> differs from the one of \<^verbatim>\<open>game.ts\<close> in one line: it
  also writes a shake deadline into the decoration. Its \<^verbatim>\<open>interface Decoration\<close> has the
  optional field \<^verbatim>\<open>shakeEndTime\<close> for it, its \<^verbatim>\<open>interface Player\<close> has four more fields,
  and its \<^verbatim>\<open>interface Tile\<close> is the one of \<^verbatim>\<open>game.ts\<close>. The record \<open>Game4\<close> holds the
  module-level variables that the two functions read or write. \<^verbatim>\<open>Date.now()\<close> is a
  parameter.
\<close>

record Decoration4 = Decoration +
  deco_shakeEndTime :: "real option"

record Player4 = Player +
  prevTileX :: real
  prevTileY :: real
  targetDirection :: real
  isRotating :: bool

record Game4 =
  world4 :: "Tile list list"
  heap4 :: "ref \<Rightarrow> Decoration4"
  player4 :: Player4
  fallingTrees4 :: "ref list"

text \<open>\<^verbatim>\<open>function isWalkable(x, y)\<close> of \<^verbatim>\<open>part_004\<close>\<close>

definition isWalkable4 :: "Game4 \<Rightarrow> real \<Rightarrow> real \<Rightarrow> bool" where
  "isWalkable4 g x y =
     (let tileX = \<lfloor>x\<rfloor>; tileY = \<lfloor>y\<rfloor> in
      if outOfBounds (world4 g) tileX tileY then False
      else
        let tile = world4 g ! nat tileX ! nat tileY in
        if ttype tile = Water then False
        else case decoration tile of
          None \<Rightarrow> True
        | Some r \<Rightarrow>
            if dtype (heap4 g r) = RockDeco then False
            else if dtype (heap4 g r) = TreeDeco then healthOr100 (heap4 g r) \<le> 0
            else True)"

text \<open>\<^verbatim>\<open>function damageTree(x, y)\<close> of \<^verbatim>\<open>part_004\<close>, at the time \<open>now\<close>\<close>

definition damageTree4 :: "real \<Rightarrow> real \<Rightarrow> real \<Rightarrow> Game4 \<Rightarrow> bool \<times> Game4" where
  "damageTree4 now x y g =
     (let tileX = \<lfloor>x\<rfloor>; tileY = \<lfloor>y\<rfloor> in
      if outOfBounds (world4 g) tileX tileY then (False, g)
      else
        let tile = world4 g ! nat tileX ! nat tileY in
        case decoration tile of
          None \<Rightarrow> (False, g)
        | Some r \<Rightarrow>
            if dtype (heap4 g r) = TreeDeco \<and> healthOr100 (heap4 g r) > 0 then
              let h = healthOr100 (heap4 g r) - 34;
                  d1 = (heap4 g r)\<lparr>health := Some h, deco_shakeEndTime := Some (now + 150)\<rparr>
              in
                if h \<le> 0 then
                  let d2 = d1\<lparr>state := Some Falling, fallAngle := Some 0,
                              fallDirection := Some (awayFromPlayer tile (player4 g)),
                              opacity := Some 1\<rparr>
                  in (True, g\<lparr>heap4 := (heap4 g)(r := d2),
                               fallingTrees4 := fallingTrees4 g @ [r]\<rparr>)
                else (False, g\<lparr>heap4 := (heap4 g)(r := d1)\<rparr>)
            else (False, g))"

section \<open>Well-formed worlds and the walkability rule\<close>

text \<open>The shape \<^verbatim>\<open>generateWorld\<close> gives the world: \<^verbatim>\<open>WORLD_SIZE\<close> columns of
  \<^verbatim>\<open>WORLD_SIZE\<close> tiles.\<close>

definition wf_world :: "Tile list list \<Rightarrow> bool" where
  "wf_world w \<longleftrightarrow> length w = WORLD_SIZE \<and> list_all (\<lambda>c. length c = WORLD_SIZE) w"

definition inGrid :: "int \<Rightarrow> int \<Rightarrow> bool" where
  "inGrid i j \<longleftrightarrow> 0 \<le> i \<and> i < int WORLD_SIZE \<and> 0 \<le> j \<and> j < int WORLD_SIZE"

text \<open>
  The walkability rule in the words of the specification, on the tagged view of a tile
  that the specification uses: terrain, and a decoration that is absent, a rock, a tree
  with its health, or a flower. The health of a tree is the number stored in the
  \<^verbatim>\<open>health\<close> field of its object; a tree object without the field is at the health 100
  that trees are created with. \<open>None\<close> is the out-of-bounds answer of \<open>tileAt\<close>.
\<close>

datatype decorationView = NoDecoration | RockView | TreeView int | FlowerView

definition viewDecoration :: "(ref \<Rightarrow> Decoration) \<Rightarrow> ref option \<Rightarrow> decorationView" where
  "viewDecoration h d =
     (case d of
        None \<Rightarrow> NoDecoration
      | Some r \<Rightarrow>
          (case dtype (h r) of
             RockDeco \<Rightarrow> RockView
           | TreeDeco \<Rightarrow> TreeView (case health (h r) of Some v \<Rightarrow> v | None \<Rightarrow> 100)
           | FlowerDeco \<Rightarrow> FlowerView))"

definition tileAt :: "'a Game_scheme \<Rightarrow> int \<Rightarrow> int \<Rightarrow> (terrain \<times> decorationView) option" where
  "tileAt g i j =
     (if inGrid i j then
        Some (ttype (world g ! nat i ! nat j),
              viewDecoration (heap g) (decoration (world g ! nat i ! nat j)))
      else None)"

fun walkableRule :: "(terrain \<times> decorationView) option \<Rightarrow> bool" where
  "walkableRule None = False"
| "walkableRule (Some (Water, d)) = False"
| "walkableRule (Some (t, NoDecoration)) = True"
| "walkableRule (Some (t, RockView)) = False"
| "walkableRule (Some (t, TreeView h)) = (h \<le> 0)"
| "walkableRule (Some (t, FlowerView)) = True"

section \<open>A sample session\<close>

text \<open>
  The state after \<^verbatim>\<open>init\<close> for a stream of random draws that plants a single tree, on
  tile (1, 1), and spawns the player on tile (0, 1), west of it.
\<close>

definition demoRnd :: "nat \<Rightarrow> real" where
  "demoRnd n = (if n = 22 then 0.1 else if n = 1278 then 0.004 else 0.9)"

definition demoTile :: "nat \<Rightarrow> nat \<Rightarrow> Tile" where
  "demoTile x y =
     \<lparr>t_x = x, t_y = y,
      ttype = (if distFromCenter x y < 3 then Water else Grass),
      decoration = (if x = 1 \<and> y = 1 then Some 0 else None)\<rparr>"

definition demoGame :: Game where
  "demoGame =
     \<lparr>rnd = demoRnd, rpos = 1279,
      heap = (\<lambda>_. plainDecoration FlowerDeco 0 0 0)
               (0 := (plainDecoration TreeDeco 2 ((0.9 - 0.5) * 0.6) ((0.9 - 0.5) * 0.6))
                        \<lparr>health := Some 100, state := Some Healthy\<rparr>),
      nextRef = 1, scene = {0},
      world = map (\<lambda>x. map (demoTile x) [0..<WORLD_SIZE]) [0..<WORLD_SIZE],
      player = createPlayer 0 1,
      input = \<lparr>up = False, down = False, left = False, right = False\<rparr>,
      isMoving = False, chopCooldown = 0, fallingTrees = [], lastTime = 0\<rparr>"

text \<open>The sample session after three chops at the tree on tile (1, 1).\<close>

definition demoFelled :: Game where
  "demoFelled = snd (damageTree 1 1 (snd (damageTree 1 1 (snd (damageTree 1 1 demoGame)))))"

text \<open>The sample state in the shape of \<^verbatim>\<open>part_004\<close>: the same world, objects and player
  position, no shake deadline yet.\<close>

definition demoGame4 :: Game4 where
  "demoGame4 =
     \<lparr>world4 = world demoGame,
      heap4 = (\<lambda>r. \<lparr>dtype = dtype (heap demoGame r), variant = variant (heap demoGame r),
                     offsetX = offsetX (heap demoGame r), offsetY = offsetY (heap demoGame r),
                     health = health (heap demoGame r), state = state (heap demoGame r),
                     fallAngle = fallAngle (heap demoGame r),
                     fallDirection = fallDirection (heap demoGame r),
                     opacity = opacity (heap demoGame r), deco_shakeEndTime = None\<rparr>),
      player4 = \<lparr>p_x = 0, p_y = 1, targetX = 0, targetY = 1, direction = 0,
                 p_isMoving = False, animTime = 0, prevTileX = 0, prevTileY = 1,
                 targetDirection = 0, isRotating = False\<rparr>,
      fallingTrees4 = []\<rparr>"

section \<open>Sessions and their invariant\<close>

text \<open>
  The states of a session: \<^verbatim>\<open>init\<close> on any stream of draws from \<open>[0, 1)\<close>, followed by
  frames whose time stamps do not run backwards (the loop reads a monotonic clock).
\<close>

inductive reachable :: "Game \<Rightarrow> bool" where
  reachable_init: "(\<And>n. 0 \<le> rs n \<and> rs n < 1) \<Longrightarrow> reachable (init rs t0)"
| reachable_frame: "reachable g \<Longrightarrow> lastTime g \<le> fst f \<Longrightarrow> reachable (frame f g)"

text \<open>Time stamps that start at \<open>t\<close>, never run backwards and are at most 50 ms apart, so
  that no frame delta is clamped.\<close>

fun steady :: "real \<Rightarrow> real list \<Rightarrow> bool" where
  "steady t [] = True"
| "steady t (u # us) = (t \<le> u \<and> u - t \<le> 50 \<and> steady u us)"

text \<open>Time stamps that start at \<open>t\<close> and never run backwards.\<close>

fun forward :: "real \<Rightarrow> real list \<Rightarrow> bool" where
  "forward t [] = True"
| "forward t (u # us) = (t \<le> u \<and> forward u us)"

text \<open>The decoration objects referenced by the tiles, in the order of the columns.\<close>

definition decoRefs :: "Tile list list \<Rightarrow> ref list" where
  "decoRefs w = List.map_filter decoration (concat w)"

text \<open>What one pass of the loop of \<^verbatim>\<open>updateFallingTrees\<close> does to the object of a tree,
  and whether it takes the tree out of the game.\<close>

definition clearRef :: "ref \<Rightarrow> Tile \<Rightarrow> Tile" where
  "clearRef r t = (if decoration t = Some r then t\<lparr>decoration := None\<rparr> else t)"

definition stepTree :: "real \<Rightarrow> Decoration \<Rightarrow> Decoration" where
  "stepTree dt tree =
     (if state tree = Some Falling then
        let a = (case fallAngle tree of None \<Rightarrow> 0 | Some a \<Rightarrow> a) + dt * 2.5 in
        if a \<ge> pi / 2 then tree\<lparr>fallAngle := Some (pi / 2), state := Some Fading\<rparr>
        else tree\<lparr>fallAngle := Some a\<rparr>
      else if state tree = Some Fading then
        tree\<lparr>opacity := Some ((case opacity tree of None \<Rightarrow> 1 | Some v \<Rightarrow> v) - dt * 2)\<rparr>
      else tree)"

definition fadedOut :: "real \<Rightarrow> Decoration \<Rightarrow> bool" where
  "fadedOut dt tree \<longleftrightarrow>
     state tree = Some Fading \<and>
     (case opacity tree of None \<Rightarrow> 1 | Some v \<Rightarrow> v) - dt * 2 \<le> 0"

text \<open>The shape of a tree object at any time of a session.\<close>

definition treeOk :: "Decoration \<Rightarrow> bool" where
  "treeOk d \<longleftrightarrow>
     health d \<in> {Some 100, Some 66, Some 32, Some (- 2)} \<and>
     (if healthOr100 d > 0 then state d = Some Healthy
      else (state d = Some Falling \<or> state d = Some Fading) \<and>
           (\<exists>a. fallAngle d = Some a \<and> 0 \<le> a \<and> a \<le> pi / 2) \<and>
           fallDirection d \<noteq> None \<and>
           (\<exists>v. opacity d = Some v \<and> v \<le> 1))"

definition inv :: "Game \<Rightarrow> bool" where
  "inv g \<longleftrightarrow>
     wf_world (world g) \<and>
     distinct (decoRefs (world g)) \<and>
     distinct (fallingTrees g) \<and>
     set (fallingTrees g) \<subseteq> set (decoRefs (world g)) \<and>
     (\<forall>r. dtype (heap g r) = TreeDeco \<longrightarrow> treeOk (heap g r)) \<and>
     (\<forall>r \<in> set (fallingTrees g). dtype (heap g r) = TreeDeco \<and> healthOr100 (heap g r) \<le> 0) \<and>
     (\<forall>r \<in> set (decoRefs (world g)).
         dtype (heap g r) = TreeDeco \<and> healthOr100 (heap g r) \<le> 0 \<longrightarrow> r \<in> set (fallingTrees g))"

text \<open>Clearing the decoration of a tile when it is one of a set of objects.\<close>

definition clearRefs :: "ref set \<Rightarrow> Tile \<Rightarrow> Tile" where
  "clearRefs R t =
     (case decoration t of
        None \<Rightarrow> t
      | Some r \<Rightarrow> if r \<in> R then t\<lparr>decoration := None\<rparr> else t)"


text \<open>What a chop of \<^verbatim>\<open>damageTree\<close> does to the object of a tree with positive health.\<close>

definition hitTree :: "Vector3 \<Rightarrow> Decoration \<Rightarrow> Decoration" where
  "hitTree dir d =
     (if healthOr100 d - 34 \<le> 0 then
        d\<lparr>health := Some (healthOr100 d - 34), state := Some Falling, fallAngle := Some 0,
          fallDirection := Some dir, opacity := Some 1\<rparr>
      else d\<lparr>health := Some (healthOr100 d - 34)\<rparr>)"

text \<open>The tree that \<^verbatim>\<open>updatePlayer\<close> calls \<^verbatim>\<open>damageTree\<close> on in a state, if any: the
  conditions on the path to the call, read off the source.\<close>

definition chopTarget :: "Game \<Rightarrow> ref option" where
  "chopTarget g =
     (let tx = fst (intentTarget g); ty = snd (intentTarget g) in
      if \<not> isMoving g \<and> (intentX (input g) \<noteq> 0 \<or> intentY (input g) \<noteq> 0) \<and>
         \<not> isWalkable g (real_of_int tx) (real_of_int ty) \<and> chopCooldown g \<le> 0 \<and>
         \<not> outOfBounds (world g) tx ty
      then
        (case decoration (world g ! nat tx ! nat ty) of
           None \<Rightarrow> None
         | Some r \<Rightarrow> if dtype (heap g r) = TreeDeco then Some r else None)
      else None)"


text \<open>
  What world generation guarantees, step by step: a fresh tree has health 100 and is
  healthy; a step allocates the objects \<open>refs\<close>, in order, and leaves all other objects
  alone; the tile made for \<open>(x, y)\<close> is water exactly within distance 3 of the centre and
  carries a decoration only on grass off the border.
\<close>

definition freshOk :: "Decoration \<Rightarrow> bool" where
  "freshOk c \<longleftrightarrow> (dtype c = TreeDeco \<longrightarrow> health c = Some 100 \<and> state c = Some Healthy)"

definition genStep :: "Env \<Rightarrow> ref list \<Rightarrow> Env \<Rightarrow> bool" where
  "genStep e refs e' \<longleftrightarrow>
     rnd e' = rnd e \<and> refs = [nextRef e..<nextRef e'] \<and> nextRef e \<le> nextRef e' \<and>
     (\<forall>r. r < nextRef e \<or> nextRef e' \<le> r \<longrightarrow> heap e' r = heap e r) \<and>
     (\<forall>r. nextRef e \<le> r \<and> r < nextRef e' \<longrightarrow> freshOk (heap e' r))"

definition tileGen :: "nat \<Rightarrow> nat \<Rightarrow> Tile \<Rightarrow> bool" where
  "tileGen x y t \<longleftrightarrow>
     t_x t = x \<and> t_y t = y \<and> (ttype t = Water \<longleftrightarrow> distFromCenter x y < 3) \<and>
     (decoration t \<noteq> None \<longrightarrow> ttype t = Grass \<and> distFromEdge x y > 0)"


text \<open>The cooldown after the first statement of \<^verbatim>\<open>update\<close>, and the delta that
  \<^verbatim>\<open>gameLoop\<close> passes to it.\<close>

definition cooled :: "real \<Rightarrow> Game \<Rightarrow> real" where
  "cooled d g = (if chopCooldown g > 0 then chopCooldown g - d else chopCooldown g)"

definition frameDelta :: "real \<times> InputState \<Rightarrow> Game \<Rightarrow> real" where
  "frameDelta f g = min (fst f - lastTime g) 50"

text \<open>An idle player whose key snapshot \<open>i\<close> aims at the tile that holds the tree \<open>r\<close>.\<close>

definition facingTree :: "Game \<Rightarrow> InputState \<Rightarrow> ref \<Rightarrow> bool" where
  "facingTree g i r \<longleftrightarrow>
     \<not> isMoving g \<and> (intentX i \<noteq> 0 \<or> intentY i \<noteq> 0) \<and>
     inGrid (round (p_x (player g)) + intentX i) (round (p_y (player g)) + intentY i) \<and>
     decoration (world g ! nat (round (p_x (player g)) + intentX i)
                         ! nat (round (p_y (player g)) + intentY i)) = Some r \<and>
     dtype (heap g r) = TreeDeco"

text \<open>Key snapshots and a run of the sample session: the right key held for eighteen frames
  of 50 ms, and the up and right keys held together.\<close>

definition demoRight :: InputState where
  "demoRight = \<lparr>up = False, down = False, left = False, right = True\<rparr>"

definition demoUpRight :: InputState where
  "demoUpRight = \<lparr>up = True, down = False, left = False, right = True\<rparr>"

definition demoHold :: "(real \<times> InputState) list" where
  "demoHold = map (\<lambda>k. (50 * real k, demoRight)) [1..<19]"

text \<open>The trees that \<^verbatim>\<open>tree.ts\<close> can produce: created, then damaged and updated any number
  of times.\<close>

inductive treeLife :: "Tree \<Rightarrow> bool" where
  "treeLife (createTree x y ox oy)"
| "treeLife t \<Longrightarrow> treeLife (damage now dir t)"
| "treeLife t \<Longrightarrow> treeLife (tree_update dt t)"

text \<open>Five more frames of the right key, from 100 ms to 300 ms.\<close>

definition demoWait :: "(real \<times> InputState) list" where
  "demoWait = map (\<lambda>k. (50 * real k, demoRight)) [2..<7]"

text \<open>The sample session carried on: the right key held until the third chop fells the
  tree (at 650 ms), and for sixteen more frames of 50 ms after it.\<close>

definition demoWait2 :: "(real \<times> InputState) list" where
  "demoWait2 = map (\<lambda>k. (50 * real k, demoRight)) [8..<13]"

definition demoFalling :: Game where
  "demoFalling = frame (650, demoRight) (frames demoWait2 (frame (350, demoRight)
                   (frames demoWait (frame (50, demoRight) demoGame))))"

definition demoFall :: "(real \<times> InputState) list" where
  "demoFall = map (\<lambda>k. (50 * real k, demoRight)) [14..<30]"

definition demoFading :: Game where
  "demoFading = frames demoFall demoFalling"

text \<open>Time stamps exactly 50 ms apart, starting after \<open>t\<close>.\<close>

fun paced :: "real \<Rightarrow> real list \<Rightarrow> bool" where
  "paced t [] = True"
| "paced t (u # us) = (u = t + 50 \<and> paced u us)"

text \<open>Where a tree felled with a fall angle of 0.125 after its first frame can be \<open>k\<close>
  frames of 50 ms later: still falling, or fading since the seventh frame at the earliest.\<close>

definition fallPhase :: "nat \<Rightarrow> Decoration \<Rightarrow> bool" where
  "fallPhase k d \<longleftrightarrow>
     (state d = Some Falling \<and> fallAngle d = Some (0.125 * (real k + 1)) \<and> opacity d = Some 1) \<or>
     (state d = Some Fading \<and> 7 \<le> k \<and>
      (\<exists>v. opacity d = Some v \<and> 1 - 0.1 * (real k - 7) \<le> v))"

text \<open>The position \<^verbatim>\<open>init\<close> gets from \<^verbatim>\<open>getSpawnPosition\<close> on the world it has just
  generated, for the stream \<open>rs\<close> of random draws.\<close>

definition spawnOf :: "(nat \<Rightarrow> real) \<Rightarrow> nat \<times> nat" where
  "spawnOf rs =
     fst (getSpawnPosition (fst (generateWorld (emptyEnv rs))) (snd (generateWorld (emptyEnv rs))))"

section \<open>Properties\<close>

subsection \<open>Basic facts\<close>

lemma sqrt_less_3: "sqrt a < 3 \<longleftrightarrow> a < 9"
proof -
  have "sqrt a < sqrt 9 \<longleftrightarrow> a < 9" by (rule real_sqrt_less_iff)
  moreover have "sqrt 9 = (3::real)" using real_sqrt_abs[of 3] by simp
  ultimately show ?thesis by simp
qed

lemma wf_world_nth: "wf_world w \<Longrightarrow> i < WORLD_SIZE \<Longrightarrow> length (w ! i) = WORLD_SIZE"
  by (simp add: wf_world_def list_all_length)

lemma wf_world_bounds: "wf_world w \<Longrightarrow> outOfBounds w i j \<longleftrightarrow> \<not> inGrid i j"
  using wf_world_nth[of w 0]
  by (auto simp: outOfBounds_def inGrid_def wf_world_def WORLD_SIZE_def)

lemma wf_demoGame: "wf_world (world demoGame)"
  by (simp add: wf_world_def demoGame_def list_all_iff)

lemma demo_tile:
  "x < WORLD_SIZE \<Longrightarrow> y < WORLD_SIZE \<Longrightarrow> world demoGame ! x ! y = demoTile x y"
  by (simp add: demoGame_def)

subsection \<open>The walkability rule\<close>

text \<open>
  C1: on a world of the generated shape, \<open>isWalkable\<close> answers as the ordered rule of the
  specification does: out of bounds is not walkable, water is not walkable, a tile
  without decoration is walkable, a rock is not, a tree is walkable exactly when its
  health is at most 0, and a flower is walkable.
\<close>

theorem isWalkable_rule:
  assumes "wf_world (world g)"
  shows "isWalkable g x y = walkableRule (tileAt g \<lfloor>x\<rfloor> \<lfloor>y\<rfloor>)"
proof (cases "outOfBounds (world g) \<lfloor>x\<rfloor> \<lfloor>y\<rfloor>")
  case True
  then show ?thesis using wf_world_bounds[OF assms] by (simp add: isWalkable_def tileAt_def)
next
  case False
  then have inb: "inGrid \<lfloor>x\<rfloor> \<lfloor>y\<rfloor>"
    using wf_world_bounds[OF assms] by simp
  show ?thesis
  proof (cases "ttype (world g ! nat \<lfloor>x\<rfloor> ! nat \<lfloor>y\<rfloor>)")
    case Water
    with False inb show ?thesis by (simp add: isWalkable_def tileAt_def)
  next
    case Grass
    with False inb show ?thesis
      by (auto simp: isWalkable_def tileAt_def viewDecoration_def healthOr100_def
               split: option.splits decorationType.splits)
  next
    case Path
    with False inb show ?thesis
      by (auto simp: isWalkable_def tileAt_def viewDecoration_def healthOr100_def
               split: option.splits decorationType.splits)
  qed
qed

subsection \<open>Chopping\<close>

text \<open>
  The chop in the three variants. \<^verbatim>\<open>Tree.damage\<close> of \<^verbatim>\<open>tree.ts\<close> sets the shake deadline
  and writes the \<^verbatim>\<open>isWalkable\<close> field of the tree; \<^verbatim>\<open>damageTree\<close> of \<^verbatim>\<open>game.ts\<close> writes no
  deadline and no tile; \<^verbatim>\<open>damageTree\<close> of \<^verbatim>\<open>part_004\<close> sets the deadline and writes no tile.
\<close>

lemma damage_alive:
  assumes "tree_health t > 0"
  shows "tree_health (damage now dir t) = tree_health t - 34"
    and "shakeEndTime (damage now dir t) = now + 150"
    and "tree_health t \<le> 34 \<Longrightarrow>
           tree_state (damage now dir t) = Falling \<and> tree_fallAngle (damage now dir t) = 0 \<and>
           tree_fallDirection (damage now dir t) = Some dir \<and> tree_isWalkable (damage now dir t)"
    and "tree_health t > 34 \<Longrightarrow>
           tree_state (damage now dir t) = tree_state t \<and>
           tree_fallAngle (damage now dir t) = tree_fallAngle t \<and>
           tree_fallDirection (damage now dir t) = tree_fallDirection t \<and>
           tree_isWalkable (damage now dir t) = tree_isWalkable t"
  using assms by (simp_all add: damage_def Let_def)

lemma damageTree_alive:
  assumes wf: "wf_world (world g)" and inb: "inGrid \<lfloor>x\<rfloor> \<lfloor>y\<rfloor>"
    and deco: "decoration (world g ! nat \<lfloor>x\<rfloor> ! nat \<lfloor>y\<rfloor>) = Some r"
    and tree: "dtype (heap g r) = TreeDeco" and alive: "healthOr100 (heap g r) > 0"
  shows "health (heap (snd (damageTree x y g)) r) = Some (healthOr100 (heap g r) - 34)"
    and "world (snd (damageTree x y g)) = world g"
    and "dtype (heap (snd (damageTree x y g)) r) = TreeDeco"
    and "healthOr100 (heap g r) \<le> 34 \<Longrightarrow>
           fst (damageTree x y g) \<and>
           state (heap (snd (damageTree x y g)) r) = Some Falling \<and>
           fallAngle (heap (snd (damageTree x y g)) r) = Some 0 \<and>
           fallDirection (heap (snd (damageTree x y g)) r) =
             Some (awayFromPlayer (world g ! nat \<lfloor>x\<rfloor> ! nat \<lfloor>y\<rfloor>) (player g))"
    and "healthOr100 (heap g r) > 34 \<Longrightarrow>
           \<not> fst (damageTree x y g) \<and>
           state (heap (snd (damageTree x y g)) r) = state (heap g r)"
  using assms wf_world_bounds[OF wf, of "\<lfloor>x\<rfloor>" "\<lfloor>y\<rfloor>"]
  by (simp_all add: damageTree_def Let_def)

lemma isWalkable_tree:
  assumes wf: "wf_world (world g)" and inb: "inGrid \<lfloor>x\<rfloor> \<lfloor>y\<rfloor>"
    and deco: "decoration (world g ! nat \<lfloor>x\<rfloor> ! nat \<lfloor>y\<rfloor>) = Some r"
    and tree: "dtype (heap g r) = TreeDeco"
    and land: "ttype (world g ! nat \<lfloor>x\<rfloor> ! nat \<lfloor>y\<rfloor>) \<noteq> Water"
  shows "isWalkable g x y \<longleftrightarrow> healthOr100 (heap g r) \<le> 0"
  using assms wf_world_bounds[OF wf, of "\<lfloor>x\<rfloor>" "\<lfloor>y\<rfloor>"]
  by (simp add: isWalkable_def Let_def)

lemma awayFromPlayer_unit:
  assumes "real (t_x tile) + 0.5 \<noteq> p_x p \<or> real (t_y tile) + 0.5 \<noteq> p_y p"
  shows "\<exists>a b k. awayFromPlayer tile p = (Num a, Num 0, Num b) \<and> a\<^sup>2 + b\<^sup>2 = 1 \<and> 0 < k \<and>
           k * a = real (t_x tile) + 0.5 - p_x p \<and> k * b = real (t_y tile) + 0.5 - p_y p"
proof -
  define dx where "dx = real (t_x tile) + 0.5 - p_x p"
  define dy where "dy = real (t_y tile) + 0.5 - p_y p"
  define s where "s = dx * dx + dy * dy"
  have "dx \<noteq> 0 \<or> dy \<noteq> 0"
    using assms unfolding dx_def dy_def by auto
  then have nz: "s > 0"
    unfolding s_def by (simp only: sum_squares_gt_zero_iff)
  then have k: "0 < sqrt s" by simp
  have "(dx / sqrt s)\<^sup>2 + (dy / sqrt s)\<^sup>2 = dx * dx / s + dy * dy / s"
    using nz by (simp add: power_divide power2_eq_square)
  also have "\<dots> = s / s"
    unfolding s_def by (simp only: add_divide_distrib)
  also have "\<dots> = 1" using nz by simp
  finally have unit: "(dx / sqrt s)\<^sup>2 + (dy / sqrt s)\<^sup>2 = 1" .
  have ne: "sqrt (dx * dx + dy * dy) \<noteq> 0" using k unfolding s_def by linarith
  have v: "awayFromPlayer tile p = (Num (dx / sqrt s), Num 0, Num (dy / sqrt s))"
    unfolding awayFromPlayer_def Let_def dx_def[symmetric] dy_def[symmetric]
    using ne by (simp add: s_def)
  have m: "sqrt s * (dx / sqrt s) = dx" "sqrt s * (dy / sqrt s) = dy" using k by simp_all
  show ?thesis
    unfolding dx_def[symmetric] dy_def[symmetric]
    using v unit k m by blast
qed

lemma awayFromPlayer_centre:
  assumes "p_x p = real (t_x tile) + 0.5" and "p_y p = real (t_y tile) + 0.5"
  shows "awayFromPlayer tile p = (NaN, Num 0, NaN)"
  using assms by (simp add: awayFromPlayer_def)

lemma damageTree4_alive:
  assumes wf: "wf_world (world4 g)" and inb: "inGrid \<lfloor>x\<rfloor> \<lfloor>y\<rfloor>"
    and deco: "decoration (world4 g ! nat \<lfloor>x\<rfloor> ! nat \<lfloor>y\<rfloor>) = Some r"
    and tree: "dtype (heap4 g r) = TreeDeco" and hv: "health (heap4 g r) = Some h" and alive: "0 < h"
  shows "health (heap4 (snd (damageTree4 now x y g)) r) = Some (h - 34)"
    and "deco_shakeEndTime (heap4 (snd (damageTree4 now x y g)) r) = Some (now + 150)"
    and "world4 (snd (damageTree4 now x y g)) = world4 g"
    and "player4 (snd (damageTree4 now x y g)) = player4 g"
    and "dtype (heap4 (snd (damageTree4 now x y g)) r) = TreeDeco"
    and "fst (damageTree4 now x y g) \<longleftrightarrow> h - 34 \<le> 0"
    and "h - 34 \<le> 0 \<Longrightarrow>
           state (heap4 (snd (damageTree4 now x y g)) r) = Some Falling \<and>
           fallAngle (heap4 (snd (damageTree4 now x y g)) r) = Some 0 \<and>
           fallDirection (heap4 (snd (damageTree4 now x y g)) r) =
             Some (awayFromPlayer (world4 g ! nat \<lfloor>x\<rfloor> ! nat \<lfloor>y\<rfloor>) (player4 g)) \<and>
           opacity (heap4 (snd (damageTree4 now x y g)) r) = Some 1 \<and>
           fallingTrees4 (snd (damageTree4 now x y g)) = fallingTrees4 g @ [r]"
    and "\<not> h - 34 \<le> 0 \<Longrightarrow>
           state (heap4 (snd (damageTree4 now x y g)) r) = state (heap4 g r) \<and>
           fallAngle (heap4 (snd (damageTree4 now x y g)) r) = fallAngle (heap4 g r) \<and>
           fallDirection (heap4 (snd (damageTree4 now x y g)) r) = fallDirection (heap4 g r) \<and>
           opacity (heap4 (snd (damageTree4 now x y g)) r) = opacity (heap4 g r) \<and>
           fallingTrees4 (snd (damageTree4 now x y g)) = fallingTrees4 g"
    and "q \<noteq> r \<Longrightarrow> heap4 (snd (damageTree4 now x y g)) q = heap4 g q"
proof -
  have ob: "\<not> outOfBounds (world4 g) \<lfloor>x\<rfloor> \<lfloor>y\<rfloor>" using wf_world_bounds[OF wf] inb by simp
  have ho: "healthOr100 (heap4 g r) = h" using hv by (simp add: healthOr100_def)
  show "health (heap4 (snd (damageTree4 now x y g)) r) = Some (h - 34)"
    and "deco_shakeEndTime (heap4 (snd (damageTree4 now x y g)) r) = Some (now + 150)"
    and "world4 (snd (damageTree4 now x y g)) = world4 g"
    and "player4 (snd (damageTree4 now x y g)) = player4 g"
    and "dtype (heap4 (snd (damageTree4 now x y g)) r) = TreeDeco"
    and "fst (damageTree4 now x y g) \<longleftrightarrow> h - 34 \<le> 0"
    and "h - 34 \<le> 0 \<Longrightarrow>
           state (heap4 (snd (damageTree4 now x y g)) r) = Some Falling \<and>
           fallAngle (heap4 (snd (damageTree4 now x y g)) r) = Some 0 \<and>
           fallDirection (heap4 (snd (damageTree4 now x y g)) r) =
             Some (awayFromPlayer (world4 g ! nat \<lfloor>x\<rfloor> ! nat \<lfloor>y\<rfloor>) (player4 g)) \<and>
           opacity (heap4 (snd (damageTree4 now x y g)) r) = Some 1 \<and>
           fallingTrees4 (snd (damageTree4 now x y g)) = fallingTrees4 g @ [r]"
    and "\<not> h - 34 \<le> 0 \<Longrightarrow>
           state (heap4 (snd (damageTree4 now x y g)) r) = state (heap4 g r) \<and>
           fallAngle (heap4 (snd (damageTree4 now x y g)) r) = fallAngle (heap4 g r) \<and>
           fallDirection (heap4 (snd (damageTree4 now x y g)) r) = fallDirection (heap4 g r) \<and>
           opacity (heap4 (snd (damageTree4 now x y g)) r) = opacity (heap4 g r) \<and>
           fallingTrees4 (snd (damageTree4 now x y g)) = fallingTrees4 g"
    and "q \<noteq> r \<Longrightarrow> heap4 (snd (damageTree4 now x y g)) q = heap4 g q"
    using ob deco tree alive ho by (simp_all add: damageTree4_def Let_def)
qed

lemma isWalkable4_tree:
  assumes wf: "wf_world (world4 g)" and inb: "inGrid \<lfloor>x\<rfloor> \<lfloor>y\<rfloor>"
    and deco: "decoration (world4 g ! nat \<lfloor>x\<rfloor> ! nat \<lfloor>y\<rfloor>) = Some r"
    and tree: "dtype (heap4 g r) = TreeDeco" and hv: "health (heap4 g r) = Some h"
    and land: "ttype (world4 g ! nat \<lfloor>x\<rfloor> ! nat \<lfloor>y\<rfloor>) \<noteq> Water"
  shows "isWalkable4 g x y \<longleftrightarrow> h \<le> 0"
  using assms wf_world_bounds[OF wf, of "\<lfloor>x\<rfloor>" "\<lfloor>y\<rfloor>"]
  by (simp add: isWalkable4_def Let_def healthOr100_def)

text \<open>
  C2, on \<^verbatim>\<open>damageTree\<close> of \<^verbatim>\<open>src/unnamed/part_004\<close>: a chop at a tree whose stored health
  \<open>h\<close> is positive stores \<open>h - 34\<close> and sets the shake deadline to 150 ms after the
  current time. If \<open>h - 34\<close> is at most 0, the chop reports a felled tree and the tree
  is falling with fall angle 0 and a fall direction of length 1 that points from the
  player to the centre of the tile; otherwise its state, fall angle and fall direction
  are as before. No tile and no player field is written; the tile was not walkable
  before the chop, and after it \<open>isWalkable\<close> is true exactly when \<open>h - 34\<close> is at most 0.
  From health 100 the three chops leave 66, 32 and -2, and the third one fells the tree.
  The player is not on the centre of the tile (it chops from integer coordinates).
\<close>

theorem chop_step:
  fixes g :: Game4 and x y now now2 now3 :: real
  defines "tile \<equiv> world4 g ! nat \<lfloor>x\<rfloor> ! nat \<lfloor>y\<rfloor>"
  defines "g1 \<equiv> snd (damageTree4 now x y g)"
  defines "g2 \<equiv> snd (damageTree4 now2 x y g1)"
  defines "g3 \<equiv> snd (damageTree4 now3 x y g2)"
  assumes "wf_world (world4 g)" and "inGrid \<lfloor>x\<rfloor> \<lfloor>y\<rfloor>"
    and "decoration tile = Some r" and "dtype (heap4 g r) = TreeDeco"
    and "health (heap4 g r) = Some h" and "0 < h"
    and "ttype tile \<noteq> Water"
    and "p_x (player4 g) \<noteq> real (t_x tile) + 0.5 \<or> p_y (player4 g) \<noteq> real (t_y tile) + 0.5"
  shows "health (heap4 g1 r) = Some (h - 34) \<and>
         deco_shakeEndTime (heap4 g1 r) = Some (now + 150) \<and>
         world4 g1 = world4 g \<and> player4 g1 = player4 g \<and>
         \<not> isWalkable4 g x y \<and>
         (if h - 34 \<le> 0 then
            fst (damageTree4 now x y g) \<and>
            state (heap4 g1 r) = Some Falling \<and> fallAngle (heap4 g1 r) = Some 0 \<and>
            (\<exists>a b k. fallDirection (heap4 g1 r) = Some (Num a, Num 0, Num b) \<and>
                     a\<^sup>2 + b\<^sup>2 = 1 \<and> 0 < k \<and>
                     k * a = real (t_x tile) + 0.5 - p_x (player4 g) \<and>
                     k * b = real (t_y tile) + 0.5 - p_y (player4 g)) \<and>
            isWalkable4 g1 x y
          else
            \<not> fst (damageTree4 now x y g) \<and>
            state (heap4 g1 r) = state (heap4 g r) \<and>
            fallAngle (heap4 g1 r) = fallAngle (heap4 g r) \<and>
            fallDirection (heap4 g1 r) = fallDirection (heap4 g r) \<and>
            \<not> isWalkable4 g1 x y) \<and>
         (if h = 100 then
            health (heap4 g2 r) = Some 32 \<and> health (heap4 g3 r) = Some (- 2) \<and>
            \<not> fst (damageTree4 now2 x y g1) \<and> fst (damageTree4 now3 x y g2) \<and>
            state (heap4 g2 r) = state (heap4 g r) \<and> state (heap4 g3 r) = Some Falling \<and>
            \<not> isWalkable4 g2 x y \<and> isWalkable4 g3 x y
          else True)"
proof -
  have wf: "wf_world (world4 g)" and inb: "inGrid \<lfloor>x\<rfloor> \<lfloor>y\<rfloor>"
    and deco: "decoration (world4 g ! nat \<lfloor>x\<rfloor> ! nat \<lfloor>y\<rfloor>) = Some r"
    and tree: "dtype (heap4 g r) = TreeDeco" and hv: "health (heap4 g r) = Some h"
    and alive: "0 < h"
    and land: "ttype (world4 g ! nat \<lfloor>x\<rfloor> ! nat \<lfloor>y\<rfloor>) \<noteq> Water"
    and off: "real (t_x tile) + 0.5 \<noteq> p_x (player4 g) \<or> real (t_y tile) + 0.5 \<noteq> p_y (player4 g)"
    using assms(5-12) unfolding tile_def by auto
  note A = damageTree4_alive[OF wf inb deco tree hv alive, where now = now, folded g1_def]
  have w0: "\<not> isWalkable4 g x y"
    using isWalkable4_tree[OF wf inb deco tree hv land] alive by simp
  have wf1: "wf_world (world4 g1)" using wf A(3) by simp
  have deco1: "decoration (world4 g1 ! nat \<lfloor>x\<rfloor> ! nat \<lfloor>y\<rfloor>) = Some r" using deco A(3) by simp
  have land1: "ttype (world4 g1 ! nat \<lfloor>x\<rfloor> ! nat \<lfloor>y\<rfloor>) \<noteq> Water" using land A(3) by simp
  have w1: "isWalkable4 g1 x y \<longleftrightarrow> h - 34 \<le> 0"
    by (rule isWalkable4_tree[OF wf1 inb deco1 A(5) A(1) land1])
  from awayFromPlayer_unit[OF off]
  obtain a b k where v: "awayFromPlayer tile (player4 g) = (Num a, Num 0, Num b)"
    and u: "a\<^sup>2 + b\<^sup>2 = 1" "0 < k"
      "k * a = real (t_x tile) + 0.5 - p_x (player4 g)"
      "k * b = real (t_y tile) + 0.5 - p_y (player4 g)"
    by blast
  have step: "if h - 34 \<le> 0 then
            fst (damageTree4 now x y g) \<and>
            state (heap4 g1 r) = Some Falling \<and> fallAngle (heap4 g1 r) = Some 0 \<and>
            (\<exists>a b k. fallDirection (heap4 g1 r) = Some (Num a, Num 0, Num b) \<and>
                     a\<^sup>2 + b\<^sup>2 = 1 \<and> 0 < k \<and>
                     k * a = real (t_x tile) + 0.5 - p_x (player4 g) \<and>
                     k * b = real (t_y tile) + 0.5 - p_y (player4 g)) \<and>
            isWalkable4 g1 x y
          else
            \<not> fst (damageTree4 now x y g) \<and>
            state (heap4 g1 r) = state (heap4 g r) \<and>
            fallAngle (heap4 g1 r) = fallAngle (heap4 g r) \<and>
            fallDirection (heap4 g1 r) = fallDirection (heap4 g r) \<and>
            \<not> isWalkable4 g1 x y"
  proof (cases "h - 34 \<le> 0")
    case True
    have "fallDirection (heap4 g1 r) = Some (Num a, Num 0, Num b)"
      using A(7)[OF True] v by (simp add: tile_def)
    then have "\<exists>a b k. fallDirection (heap4 g1 r) = Some (Num a, Num 0, Num b) \<and>
                     a\<^sup>2 + b\<^sup>2 = 1 \<and> 0 < k \<and>
                     k * a = real (t_x tile) + 0.5 - p_x (player4 g) \<and>
                     k * b = real (t_y tile) + 0.5 - p_y (player4 g)"
      using u by blast
    then show ?thesis using True A(6) A(7)[OF True] w1 by simp
  next
    case False
    then show ?thesis using A(6) A(8)[OF False] w1 by simp
  qed
  have three: "health (heap4 g2 r) = Some 32 \<and> health (heap4 g3 r) = Some (- 2) \<and>
            \<not> fst (damageTree4 now2 x y g1) \<and> fst (damageTree4 now3 x y g2) \<and>
            state (heap4 g2 r) = state (heap4 g r) \<and> state (heap4 g3 r) = Some Falling \<and>
            \<not> isWalkable4 g2 x y \<and> isWalkable4 g3 x y" if h100: "h = 100"
  proof -
    have h1: "health (heap4 g1 r) = Some 66" using A(1) h100 by simp
    have s1: "state (heap4 g1 r) = state (heap4 g r)" using A(8) h100 by simp
    note B = damageTree4_alive[OF wf1 inb deco1 A(5) h1, where now = now2, folded g2_def]
    have wf2: "wf_world (world4 g2)" using wf1 B(3) by simp
    have deco2: "decoration (world4 g2 ! nat \<lfloor>x\<rfloor> ! nat \<lfloor>y\<rfloor>) = Some r" using deco1 B(3) by simp
    have land2: "ttype (world4 g2 ! nat \<lfloor>x\<rfloor> ! nat \<lfloor>y\<rfloor>) \<noteq> Water" using land1 B(3) by simp
    have h2: "health (heap4 g2 r) = Some 32" using B(1) by simp
    have s2: "state (heap4 g2 r) = state (heap4 g r)" using B(8) s1 by simp
    have w2: "\<not> isWalkable4 g2 x y"
      using isWalkable4_tree[OF wf2 inb deco2 B(5) h2 land2] by simp
    note C = damageTree4_alive[OF wf2 inb deco2 B(5) h2, where now = now3, folded g3_def]
    have wf3: "wf_world (world4 g3)" using wf2 C(3) by simp
    have deco3: "decoration (world4 g3 ! nat \<lfloor>x\<rfloor> ! nat \<lfloor>y\<rfloor>) = Some r" using deco2 C(3) by simp
    have land3: "ttype (world4 g3 ! nat \<lfloor>x\<rfloor> ! nat \<lfloor>y\<rfloor>) \<noteq> Water" using land2 C(3) by simp
    have h3: "health (heap4 g3 r) = Some (- 2)" using C(1) by simp
    have w3: "isWalkable4 g3 x y"
      using isWalkable4_tree[OF wf3 inb deco3 C(5) h3 land3] by simp
    show ?thesis using h2 h3 B(6) C(6) C(7) s2 w2 w3 by simp
  qed
  have t3: "if h = 100 then
            health (heap4 g2 r) = Some 32 \<and> health (heap4 g3 r) = Some (- 2) \<and>
            \<not> fst (damageTree4 now2 x y g1) \<and> fst (damageTree4 now3 x y g2) \<and>
            state (heap4 g2 r) = state (heap4 g r) \<and> state (heap4 g3 r) = Some Falling \<and>
            \<not> isWalkable4 g2 x y \<and> isWalkable4 g3 x y
          else True"
    using three by simp
  show ?thesis
    by (intro conjI A(1) A(2) A(3) A(4) w0 step t3)
qed

lemma demo_heap0:
  "heap demoGame 0 =
     (plainDecoration TreeDeco 2 ((0.9 - 0.5) * 0.6) ((0.9 - 0.5) * 0.6))
        \<lparr>health := Some 100, state := Some Healthy\<rparr>"
  by (simp add: demoGame_def)

lemma demo_tile11: "world demoGame ! Suc 0 ! Suc 0 = demoTile 1 1"
  using demo_tile[of 1 1] by (simp add: WORLD_SIZE_def)

lemma demo_chops:
  defines "g1 \<equiv> snd (damageTree 1 1 demoGame)"
  defines "g2 \<equiv> snd (damageTree 1 1 g1)"
  shows "world demoFelled = world demoGame"
    and "dtype (heap demoFelled 0) = TreeDeco"
    and "health (heap demoFelled 0) = Some (- 2)"
    and "state (heap demoFelled 0) = Some Falling"
    and "health (heap g1 0) = Some 66"
    and "health (heap g2 0) = Some 32"
    and "world g2 = world demoGame"
    and "dtype (heap g2 0) = TreeDeco"
proof -
  have inb: "inGrid \<lfloor>1::real\<rfloor> \<lfloor>1::real\<rfloor>" by (simp add: inGrid_def WORLD_SIZE_def)
  have d0: "decoration (world demoGame ! nat \<lfloor>1::real\<rfloor> ! nat \<lfloor>1::real\<rfloor>) = Some 0"
    by (simp add: demo_tile11 demoTile_def)
  have t0: "dtype (heap demoGame 0) = TreeDeco" by (simp add: demo_heap0 plainDecoration_def)
  have h0: "healthOr100 (heap demoGame 0) = 100"
    by (simp add: demo_heap0 plainDecoration_def healthOr100_def)
  have a0: "healthOr100 (heap demoGame 0) > 0" using h0 by simp
  note A = damageTree_alive[OF wf_demoGame inb d0 t0 a0, folded g1_def]
  have w1: "world g1 = world demoGame" by (rule A(2))
  have h1: "healthOr100 (heap g1 0) = 66" using A(1) h0 by (simp add: healthOr100_def)
  have a1: "healthOr100 (heap g1 0) > 0" using h1 by simp
  have wf1: "wf_world (world g1)" using w1 wf_demoGame by simp
  have d1: "decoration (world g1 ! nat \<lfloor>1::real\<rfloor> ! nat \<lfloor>1::real\<rfloor>) = Some 0"
    using d0 w1 by simp
  note B = damageTree_alive[OF wf1 inb d1 A(3) a1, folded g2_def]
  have w2: "world g2 = world demoGame" using B(2) w1 by simp
  have h2: "healthOr100 (heap g2 0) = 32" using B(1) h1 by (simp add: healthOr100_def)
  have a2: "healthOr100 (heap g2 0) > 0" using h2 by simp
  have wf2: "wf_world (world g2)" using w2 wf_demoGame by simp
  have d2: "decoration (world g2 ! nat \<lfloor>1::real\<rfloor> ! nat \<lfloor>1::real\<rfloor>) = Some 0"
    using d0 w2 by simp
  have f: "demoFelled = snd (damageTree 1 1 g2)" by (simp add: demoFelled_def g1_def g2_def)
  note C = damageTree_alive[OF wf2 inb d2 B(3) a2, folded f]
  show "world demoFelled = world demoGame" using C(2) w2 by simp
  show "dtype (heap demoFelled 0) = TreeDeco" by (rule C(3))
  show "health (heap demoFelled 0) = Some (- 2)" using C(1) h2 by simp
  show "state (heap demoFelled 0) = Some Falling" using C(4) h2 by simp
  show "health (heap g1 0) = Some 66" using A(1) h0 by simp
  show "health (heap g2 0) = Some 32" using B(1) h1 by simp
  show "world g2 = world demoGame" by (rule w2)
  show "dtype (heap g2 0) = TreeDeco" by (rule B(3))
qed

lemma demo4_fields:
  "world4 demoGame4 = world demoGame"
  "p_x (player4 demoGame4) = 0" "p_y (player4 demoGame4) = 1"
  "dtype (heap4 demoGame4 0) = TreeDeco" "health (heap4 demoGame4 0) = Some 100"
  "state (heap4 demoGame4 0) = Some Healthy"
  by (simp_all add: demoGame4_def createPlayer_def demo_heap0 plainDecoration_def)

theorem chop_step_witness:
  "health (heap4 (snd (damageTree4 5 1 1 demoGame4)) 0) = Some 66 \<and>
   deco_shakeEndTime (heap4 (snd (damageTree4 5 1 1 demoGame4)) 0) = Some 155 \<and>
   state (heap4 (snd (damageTree4 5 1 1 demoGame4)) 0) = Some Healthy \<and>
   \<not> fst (damageTree4 5 1 1 demoGame4) \<and>
   \<not> isWalkable4 demoGame4 1 1 \<and> \<not> isWalkable4 (snd (damageTree4 5 1 1 demoGame4)) 1 1 \<and>
   health (heap4 (snd (damageTree4 605 1 1 (snd (damageTree4 305 1 1
      (snd (damageTree4 5 1 1 demoGame4)))))) 0) = Some (- 2) \<and>
   state (heap4 (snd (damageTree4 605 1 1 (snd (damageTree4 305 1 1
      (snd (damageTree4 5 1 1 demoGame4)))))) 0) = Some Falling \<and>
   isWalkable4 (snd (damageTree4 605 1 1 (snd (damageTree4 305 1 1
      (snd (damageTree4 5 1 1 demoGame4)))))) 1 1"
proof -
  have t: "world4 demoGame4 ! nat \<lfloor>1::real\<rfloor> ! nat \<lfloor>1::real\<rfloor> = demoTile 1 1"
    by (simp add: demo4_fields demo_tile11)
  have h: "wf_world (world4 demoGame4)" "inGrid \<lfloor>1::real\<rfloor> \<lfloor>1::real\<rfloor>"
    "decoration (world4 demoGame4 ! nat \<lfloor>1::real\<rfloor> ! nat \<lfloor>1::real\<rfloor>) = Some 0"
    "dtype (heap4 demoGame4 0) = TreeDeco" "health (heap4 demoGame4 0) = Some 100" "(0::int) < 100"
    "ttype (world4 demoGame4 ! nat \<lfloor>1::real\<rfloor> ! nat \<lfloor>1::real\<rfloor>) \<noteq> Water"
    "p_x (player4 demoGame4) \<noteq>
       real (t_x (world4 demoGame4 ! nat \<lfloor>1::real\<rfloor> ! nat \<lfloor>1::real\<rfloor>)) + 0.5 \<or>
     p_y (player4 demoGame4) \<noteq>
       real (t_y (world4 demoGame4 ! nat \<lfloor>1::real\<rfloor> ! nat \<lfloor>1::real\<rfloor>)) + 0.5"
    unfolding t using wf_demoGame
    by (simp_all add: demo4_fields inGrid_def WORLD_SIZE_def demoTile_def
        distFromCenter_def sqrt_less_3)
  show ?thesis
    using chop_step[OF h, where now = 5 and ?now2.0 = 305 and ?now3.0 = 605]
    by (simp add: demo4_fields)
qed

theorem isWalkable_rule_witness:
  "wf_world (world demoGame) \<and> \<not> isWalkable demoGame 1 1 \<and> isWalkable demoGame 0 1
   \<and> \<not> isWalkable demoGame 10 10 \<and> \<not> isWalkable demoGame 20 3
   \<and> \<not> isWalkable demoGame (- 1) 0 \<and> isWalkable demoFelled 1 1"
proof -
  have wf: "wf_world (world demoFelled)" using wf_demoGame by (simp add: demo_chops(1))
  have a: "\<not> isWalkable demoGame 1 1 \<and> isWalkable demoGame 0 1
     \<and> \<not> isWalkable demoGame 10 10 \<and> \<not> isWalkable demoGame 20 3
     \<and> \<not> isWalkable demoGame (- 1) 0"
    using isWalkable_rule[OF wf_demoGame, of 1 1] isWalkable_rule[OF wf_demoGame, of 0 1]
      isWalkable_rule[OF wf_demoGame, of 10 10] isWalkable_rule[OF wf_demoGame, of 20 3]
      isWalkable_rule[OF wf_demoGame, of "- 1" 0]
    by (simp add: tileAt_def inGrid_def demo_tile WORLD_SIZE_def demoTile_def
          viewDecoration_def demoGame_def plainDecoration_def
          distFromCenter_def sqrt_less_3)
  have b: "isWalkable demoFelled 1 1"
    using isWalkable_rule[OF wf, of 1 1]
    by (simp add: tileAt_def inGrid_def WORLD_SIZE_def demo_chops(1,2,3) demo_tile11
          demoTile_def viewDecoration_def distFromCenter_def sqrt_less_3)
  show ?thesis using a b wf_demoGame by simp
qed

lemma damageTree_dead:
  assumes "decoration (world g ! nat \<lfloor>x\<rfloor> ! nat \<lfloor>y\<rfloor>) = Some r"
    and "dtype (heap g r) = TreeDeco" and "healthOr100 (heap g r) \<le> 0"
  shows "damageTree x y g = (False, g)"
  using assms by (simp add: damageTree_def Let_def)

text \<open>
  C8: chopping a tree whose health is already at most 0 changes nothing and raises
  nothing: \<^verbatim>\<open>Tree.damage\<close> returns the tree as it is, and \<^verbatim>\<open>damageTree\<close> returns
  \<open>False\<close> and the whole game state as it is (health, state, fall angle, fall
  direction, opacity and the tiles included).
\<close>

theorem chop_dead_tree_noop:
  "(tree_health t \<le> 0 \<longrightarrow> damage now dir t = t) \<and>
   (decoration (world g ! nat \<lfloor>x\<rfloor> ! nat \<lfloor>y\<rfloor>) = Some r \<and>
    dtype (heap g r) = TreeDeco \<and> healthOr100 (heap g r) \<le> 0 \<longrightarrow>
      damageTree x y g = (False, g))"
  using damageTree_dead[of g x y r] by (simp add: damage_def)

theorem chop_dead_tree_noop_witness:
  "tree_health (damage 3 (Num 1, Num 0, Num 0) (damage 2 (Num 1, Num 0, Num 0) (damage 1 (Num 1, Num 0, Num 0) (createTree 1 1 0 0)))) = - 2 \<and>
   damage 4 (Num 0, Num 0, Num 1)
      (damage 3 (Num 1, Num 0, Num 0) (damage 2 (Num 1, Num 0, Num 0) (damage 1 (Num 1, Num 0, Num 0) (createTree 1 1 0 0))))
    = damage 3 (Num 1, Num 0, Num 0) (damage 2 (Num 1, Num 0, Num 0) (damage 1 (Num 1, Num 0, Num 0) (createTree 1 1 0 0))) \<and>
   health (heap demoFelled 0) = Some (- 2) \<and>
   damageTree 1 1 demoFelled = (False, demoFelled)"
proof -
  let ?t = "damage 3 (Num 1, Num 0, Num 0) (damage 2 (Num 1, Num 0, Num 0) (damage 1 (Num 1, Num 0, Num 0) (createTree 1 1 0 0)))"
  have t: "tree_health ?t = - 2" by (simp add: damage_def createTree_def Let_def)
  have h: "decoration (world demoFelled ! nat \<lfloor>1::real\<rfloor> ! nat \<lfloor>1::real\<rfloor>) = Some 0 \<and>
    dtype (heap demoFelled 0) = TreeDeco \<and> healthOr100 (heap demoFelled 0) \<le> 0"
    by (simp add: demo_chops demo_tile11 demoTile_def healthOr100_def)
  show ?thesis
    using chop_dead_tree_noop[of ?t 4 "(Num 0, Num 0, Num 1)" demoFelled 1 1 0] t h
    by (simp add: demo_chops)
qed

subsection \<open>The loop over the falling trees\<close>

lemma length_clearFirst [simp]: "length (clearFirst r ts) = length ts"
  by (induction ts) auto

lemma wf_clearDecoration: "wf_world w \<Longrightarrow> wf_world (clearDecoration r w)"
  by (auto simp: wf_world_def clearDecoration_def list_all_iff)

lemma map_filter_clearRef:
  "List.map_filter decoration (map (clearRef r) ts) =
     filter (\<lambda>q. q \<noteq> r) (List.map_filter decoration ts)"
  by (induction ts) (auto simp: List.map_filter_simps clearRef_def split: option.splits)

lemma clearFirst_unique:
  "distinct (List.map_filter decoration ts) \<Longrightarrow> clearFirst r ts = map (clearRef r) ts"
proof (induction ts)
  case Nil
  then show ?case by simp
next
  case (Cons t ts)
  show ?case
  proof (cases "decoration t = Some r")
    case True
    with Cons.prems have "r \<notin> set (List.map_filter decoration ts)"
      by (simp add: List.map_filter_simps)
    then have "map (clearRef r) ts = ts"
      by (induction ts) (auto simp: List.map_filter_simps clearRef_def split: option.splits)
    moreover have "clearRef r t = t\<lparr>decoration := None\<rparr>"
      using True by (simp add: clearRef_def)
    ultimately show ?thesis using True by simp
  next
    case False
    with Cons show ?thesis
      by (auto simp: clearRef_def List.map_filter_simps split: option.splits)
  qed
qed

lemma decoRefs_Cons: "decoRefs (c # w) = List.map_filter decoration c @ decoRefs w"
  by (simp add: decoRefs_def List.map_filter_def)

lemma map_filter_app:
  "List.map_filter f (xs @ ys) = List.map_filter f xs @ List.map_filter f ys"
  by (simp add: List.map_filter_def)

lemma clearDecoration_unique:
  "distinct (decoRefs w) \<Longrightarrow> clearDecoration r w = map (map (clearRef r)) w"
  by (induction w) (auto simp: clearDecoration_def decoRefs_Cons clearFirst_unique)

lemma decoRefs_clear:
  "decoRefs (map (map (clearRef r)) w) = filter (\<lambda>q. q \<noteq> r) (decoRefs w)"
proof (induction w)
  case Nil
  then show ?case by (simp add: decoRefs_def List.map_filter_simps)
next
  case (Cons c w)
  then show ?case by (simp add: decoRefs_Cons map_filter_clearRef)
qed

lemma decoRefs_nth:
  assumes "i < length w" and "j < length (w ! i)" and "decoration (w ! i ! j) = Some r"
  shows "r \<in> set (decoRefs w)"
proof -
  have "w ! i ! j \<in> set (concat w)" using assms by (auto intro!: bexI[of _ "w ! i"])
  then show ?thesis using assms(3)
    by (force simp: decoRefs_def List.map_filter_def)
qed


lemma clearRefs_clearRef: "clearRefs R (clearRef r t) = clearRefs (insert r R) t"
  by (auto simp: clearRefs_def clearRef_def split: option.splits)

lemma clearRefs_empty: "clearRefs {} t = t"
  by (simp add: clearRefs_def split: option.splits)

lemma updateFallingTree_eq:
  "updateFallingTree dt i g =
     (if fadedOut dt (heap g (fallingTrees g ! i)) then
        g\<lparr>heap := (heap g)(fallingTrees g ! i := stepTree dt (heap g (fallingTrees g ! i))),
          scene := scene g - {fallingTrees g ! i},
          fallingTrees := take i (fallingTrees g) @ drop (Suc i) (fallingTrees g),
          world := clearDecoration (fallingTrees g ! i) (world g)\<rparr>
      else g\<lparr>heap := (heap g)(fallingTrees g ! i := stepTree dt (heap g (fallingTrees g ! i)))\<rparr>)"
  by (simp add: updateFallingTree_def fadedOut_def stepTree_def Let_def)

lemma upd4:
  "g1 = g\<lparr>heap := a, scene := b, fallingTrees := c, world := d\<rparr> \<Longrightarrow>
   g1\<lparr>heap := A, scene := B, fallingTrees := C, world := D\<rparr> =
   g\<lparr>heap := A, scene := B, fallingTrees := C, world := D\<rparr>"
  by simp

lemma fallingLoop_eq:
  assumes "n \<le> length (fallingTrees g)" and "distinct (fallingTrees g)"
    and "distinct (decoRefs (world g))"
  shows "fallingLoop dt n g =
     g\<lparr>heap := (\<lambda>r. if r \<in> set (take n (fallingTrees g)) then stepTree dt (heap g r)
                       else heap g r),
       scene := scene g - {r \<in> set (take n (fallingTrees g)). fadedOut dt (heap g r)},
       fallingTrees := filter (\<lambda>r. \<not> fadedOut dt (heap g r)) (take n (fallingTrees g))
                         @ drop n (fallingTrees g),
       world := map (map (clearRefs {r \<in> set (take n (fallingTrees g)). fadedOut dt (heap g r)}))
                    (world g)\<rparr>"
  using assms
proof (induction n arbitrary: g)
  case 0
  then show ?case by (simp add: clearRefs_empty[abs_def])
next
  case (Suc n)
  let ?fs = "fallingTrees g"
  let ?r = "?fs ! n"
  let ?g1 = "updateFallingTree dt n g"
  have n: "n < length ?fs" using Suc.prems by simp
  have split: "?fs = take n ?fs @ ?r # drop (Suc n) ?fs"
    using n by (simp add: id_take_nth_drop)
  have rnot: "?r \<notin> set (take n ?fs)"
    using Suc.prems(2) split by (metis distinct_append distinct.simps(2) disjoint_iff list.set_intros(1))
  have tk: "take (Suc n) ?fs = take n ?fs @ [?r]"
    using n by (simp add: take_Suc_conv_app_nth)
  have dr: "drop n ?fs = ?r # drop (Suc n) ?fs"
    using n by (simp add: Cons_nth_drop_Suc)
  have fs1: "fallingTrees ?g1 =
      (if fadedOut dt (heap g ?r) then take n ?fs @ drop (Suc n) ?fs else ?fs)"
    by (simp add: updateFallingTree_eq)
  have tk1: "take n (fallingTrees ?g1) = take n ?fs"
    using n by (simp add: fs1)
  have dr1: "drop n (fallingTrees ?g1) =
      (if fadedOut dt (heap g ?r) then drop (Suc n) ?fs else ?r # drop (Suc n) ?fs)"
    using n dr by (simp add: fs1)
  have len1: "n \<le> length (fallingTrees ?g1)" using n by (auto simp: fs1)
  have dist1: "distinct (fallingTrees ?g1)"
    using Suc.prems(2) split by (metis fs1 distinct_append distinct.simps(2) disjoint_iff list.set_intros(2))
  have w1: "world ?g1 =
      (if fadedOut dt (heap g ?r) then map (map (clearRef ?r)) (world g) else world g)"
    using Suc.prems(3) by (simp add: updateFallingTree_eq clearDecoration_unique)
  have dw1: "distinct (decoRefs (world ?g1))"
    using Suc.prems(3) by (simp add: w1 decoRefs_clear)
  have h1: "heap ?g1 = (heap g)(?r := stepTree dt (heap g ?r))"
    by (simp add: updateFallingTree_eq)
  have hq: "\<And>q. q \<in> set (take n ?fs) \<Longrightarrow> heap ?g1 q = heap g q"
    using rnot by (auto simp: h1)
  have R1: "{q \<in> set (take n ?fs). fadedOut dt (heap ?g1 q)} =
            {q \<in> set (take n ?fs). fadedOut dt (heap g q)}"
    using hq by auto
  have F1: "filter (\<lambda>q. \<not> fadedOut dt (heap ?g1 q)) (take n ?fs) =
            filter (\<lambda>q. \<not> fadedOut dt (heap g q)) (take n ?fs)"
    using hq by (auto intro: filter_cong)
  have H1: "(\<lambda>q. if q \<in> set (take n ?fs) then stepTree dt (heap ?g1 q) else heap ?g1 q) =
            (\<lambda>q. if q \<in> set (take (Suc n) ?fs) then stepTree dt (heap g q) else heap g q)"
    using rnot by (auto simp: h1 tk fun_eq_iff)
  have RS: "{q \<in> set (take (Suc n) ?fs). fadedOut dt (heap g q)} =
            {q \<in> set (take n ?fs). fadedOut dt (heap g q)} \<union>
              (if fadedOut dt (heap g ?r) then {?r} else {})"
    by (auto simp: tk)
  have IH: "fallingLoop dt n ?g1 =
     ?g1\<lparr>heap := (\<lambda>q. if q \<in> set (take (Suc n) ?fs) then stepTree dt (heap g q) else heap g q),
       scene := scene ?g1 - {q \<in> set (take n ?fs). fadedOut dt (heap g q)},
       fallingTrees := filter (\<lambda>q. \<not> fadedOut dt (heap g q)) (take n ?fs)
                         @ drop n (fallingTrees ?g1),
       world := map (map (clearRefs {q \<in> set (take n ?fs). fadedOut dt (heap g q)}))
                    (world ?g1)\<rparr>"
    using Suc.IH[OF len1 dist1 dw1] by (simp only: tk1 R1 F1 H1)
  have sc: "scene ?g1 - {q \<in> set (take n ?fs). fadedOut dt (heap g q)} =
            scene g - {q \<in> set (take (Suc n) ?fs). fadedOut dt (heap g q)}"
    by (auto simp: updateFallingTree_eq RS)
  have ft: "filter (\<lambda>q. \<not> fadedOut dt (heap g q)) (take n ?fs) @ drop n (fallingTrees ?g1) =
            filter (\<lambda>q. \<not> fadedOut dt (heap g q)) (take (Suc n) ?fs) @ drop (Suc n) ?fs"
    by (simp add: dr1 tk)
  have wd: "map (map (clearRefs {q \<in> set (take n ?fs). fadedOut dt (heap g q)})) (world ?g1) =
            map (map (clearRefs {q \<in> set (take (Suc n) ?fs). fadedOut dt (heap g q)})) (world g)"
    by (simp add: w1 RS o_def clearRefs_clearRef Un_commute)
  have g1eq: "?g1 = g\<lparr>heap := heap ?g1, scene := scene ?g1, fallingTrees := fallingTrees ?g1,
                       world := world ?g1\<rparr>"
    by (simp add: updateFallingTree_eq)
  have "fallingLoop dt (Suc n) g = fallingLoop dt n ?g1" by simp
  also note IH
  also have "?g1\<lparr>heap := (\<lambda>q. if q \<in> set (take (Suc n) ?fs) then stepTree dt (heap g q) else heap g q),
       scene := scene ?g1 - {q \<in> set (take n ?fs). fadedOut dt (heap g q)},
       fallingTrees := filter (\<lambda>q. \<not> fadedOut dt (heap g q)) (take n ?fs)
                         @ drop n (fallingTrees ?g1),
       world := map (map (clearRefs {q \<in> set (take n ?fs). fadedOut dt (heap g q)}))
                    (world ?g1)\<rparr> =
     g\<lparr>heap := (\<lambda>q. if q \<in> set (take (Suc n) ?fs) then stepTree dt (heap g q) else heap g q),
       scene := scene ?g1 - {q \<in> set (take n ?fs). fadedOut dt (heap g q)},
       fallingTrees := filter (\<lambda>q. \<not> fadedOut dt (heap g q)) (take n ?fs)
                         @ drop n (fallingTrees ?g1),
       world := map (map (clearRefs {q \<in> set (take n ?fs). fadedOut dt (heap g q)}))
                    (world ?g1)\<rparr>"
    by (rule upd4[OF g1eq])
  finally show ?case by (simp only: sc ft wd)
qed

lemma updateFallingTrees_eq:
  assumes "distinct (fallingTrees g)" and "distinct (decoRefs (world g))"
  shows "updateFallingTrees d g =
     g\<lparr>heap := (\<lambda>r. if r \<in> set (fallingTrees g) then stepTree (d / 1000) (heap g r)
                       else heap g r),
       scene := scene g - {r \<in> set (fallingTrees g). fadedOut (d / 1000) (heap g r)},
       fallingTrees := filter (\<lambda>r. \<not> fadedOut (d / 1000) (heap g r)) (fallingTrees g),
       world := map (map (clearRefs {r \<in> set (fallingTrees g). fadedOut (d / 1000) (heap g r)}))
                    (world g)\<rparr>"
  using fallingLoop_eq[OF le_refl assms, of "d / 1000"]
  by (simp add: updateFallingTrees_def)


subsection \<open>The player update and the chop it may make\<close>

lemma isWalkable_cong:
  "world g' = world g \<Longrightarrow> heap g' = heap g \<Longrightarrow> isWalkable g' x y = isWalkable g x y"
  by (simp add: isWalkable_def Let_def split: option.splits)

lemma awayFromPlayer_direction [simp]:
  "awayFromPlayer t (p\<lparr>direction := a\<rparr>) = awayFromPlayer t p"
  by (simp add: awayFromPlayer_def)

lemma damageTree_eq:
  assumes "\<not> outOfBounds (world g) \<lfloor>x\<rfloor> \<lfloor>y\<rfloor>"
    and "decoration (world g ! nat \<lfloor>x\<rfloor> ! nat \<lfloor>y\<rfloor>) = Some r"
    and "dtype (heap g r) = TreeDeco"
  shows "snd (damageTree x y g) =
     (if healthOr100 (heap g r) > 0 then
        g\<lparr>heap := (heap g)(r := hitTree (awayFromPlayer (world g ! nat \<lfloor>x\<rfloor> ! nat \<lfloor>y\<rfloor>) (player g))
                                   (heap g r)),
          fallingTrees := (if healthOr100 (heap g r) \<le> 34 then fallingTrees g @ [r]
                           else fallingTrees g)\<rparr>
      else g)"
  using assms by (simp add: damageTree_def Let_def hitTree_def)

lemma updatePlayer_chop:
  assumes "chopTarget g = Some r"
  shows "updatePlayer d g =
     (if healthOr100 (heap g r) > 0 then
        g\<lparr>heap := (heap g)(r := hitTree (awayFromPlayer
                     (world g ! nat (fst (intentTarget g)) ! nat (snd (intentTarget g)))
                     (player g)) (heap g r)),
          fallingTrees := (if healthOr100 (heap g r) \<le> 34 then fallingTrees g @ [r]
                           else fallingTrees g),
          player := (player g)\<lparr>direction := atan2 (real_of_int (intentY (input g)))
                                                   (real_of_int (intentX (input g)))\<rparr>,
          chopCooldown := 300\<rparr>
      else
        g\<lparr>player := (player g)\<lparr>direction := atan2 (real_of_int (intentY (input g)))
                                                   (real_of_int (intentX (input g)))\<rparr>,
          chopCooldown := 300\<rparr>)"
proof -
  let ?tx = "fst (intentTarget g)" and ?ty = "snd (intentTarget g)"
  let ?g1 = "g\<lparr>player := (player g)\<lparr>direction := atan2 (real_of_int (intentY (input g)))
                                                   (real_of_int (intentX (input g)))\<rparr>\<rparr>"
  from assms have idle: "\<not> isMoving g"
    and intent: "intentX (input g) \<noteq> 0 \<or> intentY (input g) \<noteq> 0"
    and blocked: "\<not> isWalkable g (real_of_int ?tx) (real_of_int ?ty)"
    and cd: "chopCooldown g \<le> 0"
    and inb: "\<not> outOfBounds (world g) ?tx ?ty"
    and deco: "decoration (world g ! nat ?tx ! nat ?ty) = Some r"
    and tree: "dtype (heap g r) = TreeDeco"
    by (auto simp: chopTarget_def Let_def split: if_splits option.splits)
  have w1: "isWalkable ?g1 (real_of_int ?tx) (real_of_int ?ty) =
            isWalkable g (real_of_int ?tx) (real_of_int ?ty)"
    by (rule isWalkable_cong) simp_all
  have up: "updatePlayer d g = tryChop ?tx ?ty ?g1"
    using idle intent blocked w1
    by (simp add: updatePlayer_def Let_def intentTarget_def)
  have inb': "?tx \<ge> 0 \<and> ?tx < int (length (world g)) \<and> ?ty \<ge> 0 \<and> ?ty < int (length (world g ! 0))"
    using inb by (auto simp: outOfBounds_def)
  have tc: "tryChop ?tx ?ty ?g1 =
      (snd (damageTree (real_of_int ?tx) (real_of_int ?ty) ?g1))\<lparr>chopCooldown := 300\<rparr>"
    using cd inb' deco tree by (simp add: tryChop_def Let_def)
  have dm: "snd (damageTree (real_of_int ?tx) (real_of_int ?ty) ?g1) =
     (if healthOr100 (heap ?g1 r) > 0 then
        ?g1\<lparr>heap := (heap ?g1)(r := hitTree (awayFromPlayer
              (world ?g1 ! nat \<lfloor>real_of_int ?tx\<rfloor> ! nat \<lfloor>real_of_int ?ty\<rfloor>) (player ?g1))
                                   (heap ?g1 r)),
          fallingTrees := (if healthOr100 (heap ?g1 r) \<le> 34 then fallingTrees ?g1 @ [r]
                           else fallingTrees ?g1)\<rparr>
      else ?g1)"
    by (rule damageTree_eq) (use inb deco tree in simp_all)
  show ?thesis
    unfolding up tc dm by simp
qed

lemma updatePlayer_nochop:
  assumes "chopTarget g = None"
  shows "heap (updatePlayer d g) = heap g"
    and "fallingTrees (updatePlayer d g) = fallingTrees g"
    and "chopCooldown (updatePlayer d g) = chopCooldown g"
proof -
  let ?tx = "fst (intentTarget g)" and ?ty = "snd (intentTarget g)"
  let ?g1 = "g\<lparr>player := (player g)\<lparr>direction := atan2 (real_of_int (intentY (input g)))
                                                   (real_of_int (intentX (input g)))\<rparr>\<rparr>"
  have w1: "isWalkable ?g1 (real_of_int ?tx) (real_of_int ?ty) =
            isWalkable g (real_of_int ?tx) (real_of_int ?ty)"
    by (rule isWalkable_cong) simp_all
  have tc: "tryChop ?tx ?ty ?g1 = ?g1"
    if "\<not> isMoving g" "intentX (input g) \<noteq> 0 \<or> intentY (input g) \<noteq> 0"
       "\<not> isWalkable g (real_of_int ?tx) (real_of_int ?ty)"
    using assms that
    by (auto simp: tryChop_def chopTarget_def Let_def outOfBounds_def split: option.splits if_splits)
  have "heap (updatePlayer d g) = heap g \<and> fallingTrees (updatePlayer d g) = fallingTrees g
      \<and> chopCooldown (updatePlayer d g) = chopCooldown g"
  proof (cases "\<not> isMoving g \<and> (intentX (input g) \<noteq> 0 \<or> intentY (input g) \<noteq> 0) \<and>
       \<not> isWalkable g (real_of_int ?tx) (real_of_int ?ty)")
    case True
    then have "updatePlayer d g = ?g1"
      using tc w1 by (simp add: updatePlayer_def Let_def intentTarget_def)
    then show ?thesis by simp
  next
    case False
    then show ?thesis
      using w1 by (auto simp: updatePlayer_def Let_def intentTarget_def)
  qed
  then show "heap (updatePlayer d g) = heap g"
    and "fallingTrees (updatePlayer d g) = fallingTrees g"
    and "chopCooldown (updatePlayer d g) = chopCooldown g" by simp_all
qed

lemma tryChop_fields:
  "world (tryChop tx ty g) = world g \<and> scene (tryChop tx ty g) = scene g \<and>
   input (tryChop tx ty g) = input g \<and> lastTime (tryChop tx ty g) = lastTime g \<and>
   isMoving (tryChop tx ty g) = isMoving g \<and> player (tryChop tx ty g) = player g \<and>
   nextRef (tryChop tx ty g) = nextRef g"
  by (simp add: tryChop_def damageTree_def Let_def split: option.splits)

lemma updatePlayer_fields:
  "world (updatePlayer d g) = world g" "scene (updatePlayer d g) = scene g"
  "input (updatePlayer d g) = input g" "lastTime (updatePlayer d g) = lastTime g"
  "nextRef (updatePlayer d g) = nextRef g"
  by (simp_all add: updatePlayer_def Let_def tryChop_fields)

subsection \<open>The invariant is kept by every frame\<close>

lemma map_filter_clearRefs:
  "List.map_filter decoration (map (clearRefs R) ts) =
     filter (\<lambda>q. q \<notin> R) (List.map_filter decoration ts)"
  by (induction ts) (auto simp: List.map_filter_simps clearRefs_def split: option.splits)

lemma decoRefs_clearRefs:
  "decoRefs (map (map (clearRefs R)) w) = filter (\<lambda>q. q \<notin> R) (decoRefs w)"
proof (induction w)
  case Nil
  then show ?case by (simp add: decoRefs_def List.map_filter_simps)
next
  case (Cons c w)
  then show ?case by (simp add: decoRefs_Cons map_filter_clearRefs)
qed

lemma wf_world_map: "wf_world (map (map f) w) = wf_world w"
  by (simp add: wf_world_def list_all_iff)

lemma treeOk_hitTree:
  assumes "treeOk d" and "healthOr100 d > 0"
  shows "treeOk (hitTree dir d)"
proof -
  from assms have "health d = Some 100 \<or> health d = Some 66 \<or> health d = Some 32"
    by (auto simp: treeOk_def healthOr100_def)
  moreover have "state d = Some Healthy" using assms by (simp add: treeOk_def)
  ultimately show ?thesis
    by (cases dir) (auto simp: treeOk_def hitTree_def healthOr100_def)
qed

lemma hitTree_fields:
  "dtype (hitTree dir d) = dtype d"
  "health (hitTree dir d) = Some (healthOr100 d - 34)"
  "healthOr100 (hitTree dir d) = healthOr100 d - 34"
  by (simp_all add: hitTree_def healthOr100_def)

lemma stepTree_fields:
  "dtype (stepTree dt d) = dtype d"
  "health (stepTree dt d) = health d"
  "healthOr100 (stepTree dt d) = healthOr100 d"
  "fallDirection (stepTree dt d) = fallDirection d"
  by (simp_all add: stepTree_def healthOr100_def Let_def)

lemma treeOk_stepTree:
  assumes "treeOk d" and "0 \<le> dt"
  shows "treeOk (stepTree dt d)"
proof (cases "healthOr100 d > 0")
  case True
  with assms have "state d = Some Healthy" by (simp add: treeOk_def)
  then have "stepTree dt d = d" by (simp add: stepTree_def)
  with assms show ?thesis by simp
next
  case False
  with assms obtain a v where
    st: "state d = Some Falling \<or> state d = Some Fading"
    and a: "fallAngle d = Some a" "0 \<le> a" "a \<le> pi / 2"
    and v: "opacity d = Some v" "v \<le> 1"
    and fd: "fallDirection d \<noteq> None"
    and h: "health d \<in> {Some 100, Some 66, Some 32, Some (- 2)}"
    by (auto simp: treeOk_def)
  have pos: "0 \<le> dt * 2.5" "0 \<le> dt * 2" using assms(2) by simp_all
  from st show ?thesis
  proof
    assume "state d = Some Falling"
    then show ?thesis
      using False a v fd h pos
      by (auto simp: treeOk_def stepTree_def Let_def healthOr100_def intro: exI[of _ "pi / 2"])
  next
    assume "state d = Some Fading"
    then show ?thesis
      using False a v fd h pos
      by (auto simp: treeOk_def stepTree_def Let_def healthOr100_def)
  qed
qed

lemma chopTarget_Some:
  assumes "wf_world (world g)" and "chopTarget g = Some r"
  shows "r \<in> set (decoRefs (world g))" and "dtype (heap g r) = TreeDeco"
    and "chopCooldown g \<le> 0" and "\<not> isMoving g"
    and "inGrid (fst (intentTarget g)) (snd (intentTarget g))"
    and "decoration (world g ! nat (fst (intentTarget g)) ! nat (snd (intentTarget g))) = Some r"
    and "\<not> isWalkable g (real_of_int (fst (intentTarget g))) (real_of_int (snd (intentTarget g)))"
proof -
  let ?tx = "fst (intentTarget g)" and ?ty = "snd (intentTarget g)"
  from assms(2) have idle: "\<not> isMoving g"
    and blocked: "\<not> isWalkable g (real_of_int ?tx) (real_of_int ?ty)"
    and cd: "chopCooldown g \<le> 0"
    and inb: "\<not> outOfBounds (world g) ?tx ?ty"
    and deco: "decoration (world g ! nat ?tx ! nat ?ty) = Some r"
    and tree: "dtype (heap g r) = TreeDeco"
    by (auto simp: chopTarget_def Let_def split: if_splits option.splits)
  have ig: "inGrid ?tx ?ty" using inb wf_world_bounds[OF assms(1)] by simp
  then have i: "nat ?tx < length (world g)"
    using assms(1) by (auto simp: inGrid_def wf_world_def)
  have j: "nat ?ty < length (world g ! nat ?tx)"
    using ig wf_world_nth[OF assms(1), of "nat ?tx"] by (auto simp: inGrid_def)
  show "r \<in> set (decoRefs (world g))" by (rule decoRefs_nth[OF i j deco])
  show "dtype (heap g r) = TreeDeco" by (rule tree)
  show "chopCooldown g \<le> 0" by (rule cd)
  show "\<not> isMoving g" by (rule idle)
  show "inGrid ?tx ?ty" by (rule ig)
  show "decoration (world g ! nat ?tx ! nat ?ty) = Some r" by (rule deco)
  show "\<not> isWalkable g (real_of_int ?tx) (real_of_int ?ty)" by (rule blocked)
qed

lemma invD:
  assumes "inv g"
  shows "wf_world (world g)" and "distinct (decoRefs (world g))"
    and "distinct (fallingTrees g)" and "set (fallingTrees g) \<subseteq> set (decoRefs (world g))"
    and "\<And>r. dtype (heap g r) = TreeDeco \<Longrightarrow> treeOk (heap g r)"
    and "\<And>r. r \<in> set (fallingTrees g) \<Longrightarrow> dtype (heap g r) = TreeDeco"
    and "\<And>r. r \<in> set (fallingTrees g) \<Longrightarrow> healthOr100 (heap g r) \<le> 0"
    and "\<And>r. r \<in> set (decoRefs (world g)) \<Longrightarrow> dtype (heap g r) = TreeDeco \<Longrightarrow>
           healthOr100 (heap g r) \<le> 0 \<Longrightarrow> r \<in> set (fallingTrees g)"
  using assms unfolding inv_def by blast+

lemma invI:
  assumes "wf_world (world g)" and "distinct (decoRefs (world g))"
    and "distinct (fallingTrees g)" and "set (fallingTrees g) \<subseteq> set (decoRefs (world g))"
    and "\<And>r. dtype (heap g r) = TreeDeco \<Longrightarrow> treeOk (heap g r)"
    and "\<And>r. r \<in> set (fallingTrees g) \<Longrightarrow>
           dtype (heap g r) = TreeDeco \<and> healthOr100 (heap g r) \<le> 0"
    and "\<And>r. r \<in> set (decoRefs (world g)) \<Longrightarrow> dtype (heap g r) = TreeDeco \<Longrightarrow>
           healthOr100 (heap g r) \<le> 0 \<Longrightarrow> r \<in> set (fallingTrees g)"
  shows "inv g"
  using assms unfolding inv_def by blast

lemma inv_fields:
  assumes "inv g" and "world g' = world g" and "heap g' = heap g"
    and "fallingTrees g' = fallingTrees g"
  shows "inv g'"
  using assms(1) unfolding inv_def assms(2) assms(3) assms(4) .

lemma inv_updatePlayer:
  assumes "inv g"
  shows "inv (updatePlayer d g)"
proof (cases "chopTarget g")
  case None
  show ?thesis
    by (rule inv_fields[OF assms updatePlayer_fields(1) updatePlayer_nochop(1,2)[OF None]])
next
  case (Some r)
  note I = invD[OF assms]
  note T = chopTarget_Some[OF I(1) Some]
  show ?thesis
  proof (cases "healthOr100 (heap g r) > 0")
    case False
    then have "updatePlayer d g =
        g\<lparr>player := (player g)\<lparr>direction := atan2 (real_of_int (intentY (input g)))
                                                   (real_of_int (intentX (input g)))\<rparr>,
          chopCooldown := 300\<rparr>"
      using updatePlayer_chop[OF Some, of d] by simp
    then show ?thesis using inv_fields[OF assms, of "updatePlayer d g"] by simp
  next
    case True
    define ht where "ht = hitTree (awayFromPlayer
                     (world g ! nat (fst (intentTarget g)) ! nat (snd (intentTarget g)))
                     (player g)) (heap g r)"
    define fs where
      "fs = (if healthOr100 (heap g r) \<le> 34 then fallingTrees g @ [r] else fallingTrees g)"
    define g' where "g' = g\<lparr>heap := (heap g)(r := ht), fallingTrees := fs\<rparr>"
    have eq: "updatePlayer d g =
        g'\<lparr>player := (player g)\<lparr>direction := atan2 (real_of_int (intentY (input g)))
                                                   (real_of_int (intentX (input g)))\<rparr>,
          chopCooldown := 300\<rparr>"
      using updatePlayer_chop[OF Some, of d] True by (simp add: g'_def ht_def fs_def)
    have w': "world g' = world g" and h': "heap g' = (heap g)(r := ht)"
      and f': "fallingTrees g' = fs"
      by (simp_all add: g'_def)
    have rnot: "r \<notin> set (fallingTrees g)"
      using I(7)[of r] True by auto
    have ok: "treeOk ht"
      unfolding ht_def using I(5)[OF T(2)] True by (rule treeOk_hitTree)
    have hdt: "dtype ht = TreeDeco" and hdh: "healthOr100 ht = healthOr100 (heap g r) - 34"
      using T(2) by (simp_all add: ht_def hitTree_fields)
    have sfs: "set fs \<subseteq> insert r (set (fallingTrees g))"
      and sfs': "set (fallingTrees g) \<subseteq> set fs"
      and rin: "healthOr100 (heap g r) \<le> 34 \<Longrightarrow> r \<in> set fs"
      and rout: "\<not> healthOr100 (heap g r) \<le> 34 \<Longrightarrow> fs = fallingTrees g"
      by (auto simp: fs_def)
    have "inv g'"
    proof (rule invI)
      show "wf_world (world g')" using I(1) by (simp add: w')
      show "distinct (decoRefs (world g'))" using I(2) by (simp add: w')
      show "distinct (fallingTrees g')" using I(3) rnot by (simp add: f' fs_def)
      show "set (fallingTrees g') \<subseteq> set (decoRefs (world g'))"
        using I(4) T(1) sfs by (auto simp: f' w')
      show "treeOk (heap g' q)" if "dtype (heap g' q) = TreeDeco" for q
        using that ok I(5)[of q] by (cases "q = r") (simp_all add: h')
      show "dtype (heap g' q) = TreeDeco \<and> healthOr100 (heap g' q) \<le> 0"
        if "q \<in> set (fallingTrees g')" for q
      proof (cases "q = r")
        case True
        with that rnot have "healthOr100 (heap g r) \<le> 34"
          using rout by (auto simp: f')
        then show ?thesis using True hdt hdh by (simp add: h')
      next
        case False
        with that sfs have "q \<in> set (fallingTrees g)" by (auto simp: f')
        then show ?thesis using False I(6)[of q] I(7)[of q] by (simp add: h')
      qed
      show "q \<in> set (fallingTrees g')"
        if "q \<in> set (decoRefs (world g'))" "dtype (heap g' q) = TreeDeco"
           "healthOr100 (heap g' q) \<le> 0" for q
      proof (cases "q = r")
        case True
        with that(3) have "healthOr100 (heap g r) \<le> 34" using hdh by (simp add: h')
        then show ?thesis using True rin by (simp add: f')
      next
        case False
        with that have "q \<in> set (fallingTrees g)"
          using I(8)[of q] by (simp add: h' w')
        then show ?thesis using sfs' by (auto simp: f')
      qed
    qed
    then show ?thesis unfolding eq by (rule inv_fields) simp_all
  qed
qed

lemma inv_updateFallingTrees:
  assumes "inv g" and "0 \<le> d"
  shows "inv (updateFallingTrees d g)"
proof -
  let ?dt = "d / 1000"
  let ?g = "updateFallingTrees d g"
  define R where "R = {r \<in> set (fallingTrees g). fadedOut ?dt (heap g r)}"
  note I = invD[OF assms(1)]
  have dt: "0 \<le> ?dt" using assms(2) by simp
  note eq = updateFallingTrees_eq[OF I(3) I(2), of d]
  have hp: "heap ?g q = (if q \<in> set (fallingTrees g) then stepTree ?dt (heap g q) else heap g q)"
    for q by (simp add: eq)
  have dty: "dtype (heap ?g q) = dtype (heap g q)" for q
    by (simp add: hp stepTree_fields)
  have hl: "healthOr100 (heap ?g q) = healthOr100 (heap g q)" for q
    by (simp add: hp stepTree_fields)
  have fs: "fallingTrees ?g = filter (\<lambda>r. r \<notin> R) (fallingTrees g)"
    unfolding R_def by (simp add: eq cong: filter_cong)
  have w: "world ?g = map (map (clearRefs R)) (world g)"
    by (simp add: eq R_def)
  have dr: "decoRefs (world ?g) = filter (\<lambda>q. q \<notin> R) (decoRefs (world g))"
    by (simp add: w decoRefs_clearRefs)
  show ?thesis
  proof (rule invI)
    show "wf_world (world ?g)" using I(1) by (simp add: w wf_world_map)
    show "distinct (decoRefs (world ?g))" using I(2) by (simp add: dr)
    show "distinct (fallingTrees ?g)" using I(3) by (simp add: fs)
    show "set (fallingTrees ?g) \<subseteq> set (decoRefs (world ?g))"
      using I(4) by (auto simp: fs dr)
    show "treeOk (heap ?g q)" if "dtype (heap ?g q) = TreeDeco" for q
    proof -
      have "treeOk (heap g q)" using that I(5)[of q] by (simp add: dty)
      then show ?thesis using treeOk_stepTree[OF _ dt, of "heap g q"] by (simp add: hp)
    qed
    show "dtype (heap ?g q) = TreeDeco \<and> healthOr100 (heap ?g q) \<le> 0"
      if "q \<in> set (fallingTrees ?g)" for q
      using that I(6)[of q] I(7)[of q] by (simp add: fs dty hl)
    show "q \<in> set (fallingTrees ?g)"
      if "q \<in> set (decoRefs (world ?g))" "dtype (heap ?g q) = TreeDeco"
         "healthOr100 (heap ?g q) \<le> 0" for q
      using that I(8)[of q] by (simp add: fs dr dty hl)
  qed
qed

lemma inv_cooldown: "inv g \<Longrightarrow> inv (g\<lparr>chopCooldown := c\<rparr>)"
  by (rule inv_fields) simp_all

lemma inv_update:
  assumes "inv g" and "0 \<le> d"
  shows "inv (update d g)"
  unfolding update_def
  using assms by (auto intro!: inv_updateFallingTrees inv_updatePlayer inv_cooldown)

lemma inv_frame:
  assumes "inv g" and "lastTime g \<le> fst f"
  shows "inv (frame f g)"
proof -
  have "inv (g\<lparr>input := snd f, lastTime := fst f\<rparr>)"
    by (rule inv_fields[OF assms(1)]) simp_all
  moreover have "0 \<le> min (fst f - lastTime g) 50" using assms(2) by simp
  ultimately show ?thesis by (simp add: frame_def gameLoop_def inv_update)
qed

subsection \<open>World generation\<close>

lemma genStep_refl: "genStep e [] e"
  by (auto simp: genStep_def)

lemma genStep_trans:
  assumes "genStep e r1 e1" and "genStep e1 r2 e2"
  shows "genStep e (r1 @ r2) e2"
proof -
  from assms have n: "nextRef e \<le> nextRef e1" "nextRef e1 \<le> nextRef e2"
    by (simp_all add: genStep_def)
  have "[nextRef e..<nextRef e2] = [nextRef e..<nextRef e1] @ [nextRef e1..<nextRef e2]"
    using n by (metis le_Suc_ex upt_add_eq_append)
  moreover have "heap e2 r = heap e r" if "r < nextRef e \<or> nextRef e2 \<le> r" for r
  proof -
    from that n have "r < nextRef e1 \<or> nextRef e2 \<le> r" "r < nextRef e \<or> nextRef e1 \<le> r"
      by auto
    then have "heap e2 r = heap e1 r" "heap e1 r = heap e r"
      using assms unfolding genStep_def by blast+
    then show ?thesis by simp
  qed
  moreover have "freshOk (heap e2 r)" if "nextRef e \<le> r \<and> r < nextRef e2" for r
  proof (cases "r < nextRef e1")
    case True
    then have "heap e2 r = heap e1 r" using assms(2) unfolding genStep_def by blast
    moreover have "freshOk (heap e1 r)"
      using True that assms(1) unfolding genStep_def by blast
    ultimately show ?thesis by simp
  next
    case False
    then have "nextRef e1 \<le> r \<and> r < nextRef e2" using that by simp
    then show ?thesis using assms(2) unfolding genStep_def by blast
  qed
  moreover have "rnd e2 = rnd e" "r1 = [nextRef e..<nextRef e1]" "r2 = [nextRef e1..<nextRef e2]"
    using assms by (simp_all add: genStep_def)
  ultimately show ?thesis using n unfolding genStep_def by simp
qed

lemma genStep_new:
  assumes "freshOk c"
  shows "genStep e [nextRef e] (snd (newDecoration c e))"
    and "fst (newDecoration c e) = nextRef e"
  using assms by (auto simp: genStep_def newDecoration_def)

lemma genStep_random: "genStep e [] (snd (random e))"
  by (auto simp: genStep_def random_def)

lemma genStep_skip: "genStep e [] (skipRandom n e)"
  by (auto simp: genStep_def skipRandom_def)

lemma createDecoration_gen:
  "genStep e (case fst (createDecoration e) of None \<Rightarrow> [] | Some r \<Rightarrow> [r])
     (snd (createDecoration e))"
  by (auto simp: createDecoration_def Let_def random_def skipRandom_def newDecoration_def
      genStep_def freshOk_def plainDecoration_def split: prod.splits)

lemma createTile_gen:
  "genStep e (case decoration (fst (createTile x y e)) of None \<Rightarrow> [] | Some r \<Rightarrow> [r])
     (snd (createTile x y e))"
  using createDecoration_gen[of e] createDecoration_gen[of "snd (random e)"]
  by (auto simp: createTile_def Let_def genStep_refl split: prod.splits if_splits
      simp: random_def genStep_def)

lemma createTile_tile: "tileGen x y (fst (createTile x y e))"
  by (auto simp: createTile_def Let_def tileGen_def split: prod.splits if_splits)


lemma createColumn_gen:
  "genStep e (List.map_filter decoration (fst (createColumn x ys e))) (snd (createColumn x ys e))
   \<and> length (fst (createColumn x ys e)) = length ys
   \<and> (\<forall>j < length ys. tileGen x (ys ! j) (fst (createColumn x ys e) ! j))"
proof (induction ys arbitrary: e)
  case Nil
  then show ?case by (simp add: genStep_refl List.map_filter_simps)
next
  case (Cons y ys)
  let ?t = "fst (createTile x y e)" and ?e1 = "snd (createTile x y e)"
  let ?ts = "fst (createColumn x ys ?e1)" and ?e2 = "snd (createColumn x ys ?e1)"
  have eq: "createColumn x (y # ys) e = (?t # ?ts, ?e2)"
    by (simp add: Let_def split: prod.splits)
  have mf: "List.map_filter decoration (?t # ?ts) =
      (case decoration ?t of None \<Rightarrow> [] | Some r \<Rightarrow> [r]) @ List.map_filter decoration ?ts"
    by (simp add: List.map_filter_simps split: option.splits)
  have g: "genStep e (List.map_filter decoration (?t # ?ts)) ?e2"
    unfolding mf using createTile_gen[of e x y] Cons.IH[of ?e1] by (blast intro: genStep_trans)
  have tl: "tileGen x ((y # ys) ! j) ((?t # ?ts) ! j)" if "j < length (y # ys)" for j
    using that createTile_tile[of x y e] Cons.IH[of ?e1] by (cases j) auto
  show ?case
    unfolding eq using g tl Cons.IH[of ?e1] by simp
qed

lemma createColumns_gen:
  "genStep e (decoRefs (fst (createColumns xs e))) (snd (createColumns xs e))
   \<and> length (fst (createColumns xs e)) = length xs
   \<and> (\<forall>i < length xs. length (fst (createColumns xs e) ! i) = WORLD_SIZE \<and>
         (\<forall>j < WORLD_SIZE. tileGen (xs ! i) j (fst (createColumns xs e) ! i ! j)))"
proof (induction xs arbitrary: e)
  case Nil
  then show ?case by (simp add: genStep_refl decoRefs_def List.map_filter_simps)
next
  case (Cons x xs)
  let ?c = "fst (createColumn x [0..<WORLD_SIZE] e)"
  let ?e1 = "snd (createColumn x [0..<WORLD_SIZE] e)"
  let ?cs = "fst (createColumns xs ?e1)" and ?e2 = "snd (createColumns xs ?e1)"
  have eq: "createColumns (x # xs) e = (?c # ?cs, ?e2)"
    by (simp add: Let_def split: prod.splits)
  note C = createColumn_gen[of e x "[0..<WORLD_SIZE]"]
  have g: "genStep e (decoRefs (?c # ?cs)) ?e2"
    unfolding decoRefs_Cons using C Cons.IH[of ?e1] by (blast intro: genStep_trans)
  have col: "length ((?c # ?cs) ! i) = WORLD_SIZE \<and>
         (\<forall>j < WORLD_SIZE. tileGen ((x # xs) ! i) j ((?c # ?cs) ! i ! j))"
    if "i < length (x # xs)" for i
  proof (cases i)
    case 0
    then show ?thesis using C by simp
  next
    case (Suc k)
    then show ?thesis using that Cons.IH[of ?e1] by simp
  qed
  show ?case
    unfolding eq using g col Cons.IH[of ?e1] by simp
qed

lemma generateWorld_gen:
  "genStep e (decoRefs (fst (generateWorld e))) (snd (generateWorld e))"
  "wf_world (fst (generateWorld e))"
  "x < WORLD_SIZE \<Longrightarrow> y < WORLD_SIZE \<Longrightarrow> tileGen x y (fst (generateWorld e) ! x ! y)"
proof -
  note G = createColumns_gen[of e "[0..<WORLD_SIZE]", folded generateWorld_def]
  show "genStep e (decoRefs (fst (generateWorld e))) (snd (generateWorld e))"
    using G by simp
  show "wf_world (fst (generateWorld e))"
    using G by (auto simp: wf_world_def list_all_length)
  show "tileGen x y (fst (generateWorld e) ! x ! y)" if "x < WORLD_SIZE" "y < WORLD_SIZE"
    using G that by auto
qed

lemma getSpawnPosition_env:
  "heap (snd (getSpawnPosition w e)) = heap e"
  "nextRef (snd (getSpawnPosition w e)) = nextRef e"
  by (simp_all add: getSpawnPosition_def Let_def random_def split: prod.splits)

lemma init_fields:
  "world (init rs t0) = fst (generateWorld (emptyEnv rs))"
  "heap (init rs t0) = heap (snd (generateWorld (emptyEnv rs)))"
  "nextRef (init rs t0) = nextRef (snd (generateWorld (emptyEnv rs)))"
  "fallingTrees (init rs t0) = []"
  "isMoving (init rs t0) = False"
  "chopCooldown (init rs t0) = 0"
  "lastTime (init rs t0) = t0"
  "player (init rs t0) =
     createPlayer (fst (fst (getSpawnPosition (fst (generateWorld (emptyEnv rs)))
                                              (snd (generateWorld (emptyEnv rs))))))
                  (snd (fst (getSpawnPosition (fst (generateWorld (emptyEnv rs)))
                                              (snd (generateWorld (emptyEnv rs))))))"
  by (simp_all add: init_def Let_def case_prod_beta getSpawnPosition_env)

lemma init_heap:
  "dtype (heap (init rs t0) r) = TreeDeco \<Longrightarrow>
     health (heap (init rs t0) r) = Some 100 \<and> state (heap (init rs t0) r) = Some Healthy"
proof -
  assume t: "dtype (heap (init rs t0) r) = TreeDeco"
  let ?e = "snd (generateWorld (emptyEnv rs))"
  note G = generateWorld_gen(1)[where e = "emptyEnv rs"]
  have n0: "nextRef (emptyEnv rs) = 0" by (simp add: emptyEnv_def)
  show ?thesis
  proof (cases "r < nextRef ?e")
    case True
    then have "freshOk (heap ?e r)" using G n0 unfolding genStep_def by auto
    then show ?thesis using t by (simp add: init_fields freshOk_def)
  next
    case False
    then have "heap ?e r = heap (emptyEnv rs) r" using G unfolding genStep_def by auto
    then show ?thesis using t by (simp add: init_fields emptyEnv_def plainDecoration_def)
  qed
qed

lemma inv_init: "inv (init rs t0)"
proof (rule invI)
  let ?e = "snd (generateWorld (emptyEnv rs))"
  note G = generateWorld_gen[where e = "emptyEnv rs"]
  show "wf_world (world (init rs t0))" using G(2) by (simp add: init_fields)
  show "distinct (decoRefs (world (init rs t0)))"
    using G(1) by (simp add: init_fields genStep_def)
  show "distinct (fallingTrees (init rs t0))" by (simp add: init_fields)
  show "set (fallingTrees (init rs t0)) \<subseteq> set (decoRefs (world (init rs t0)))"
    by (simp add: init_fields(4))
  show "treeOk (heap (init rs t0) r)" if "dtype (heap (init rs t0) r) = TreeDeco" for r
    using init_heap[OF that] by (simp add: treeOk_def healthOr100_def)
  show "dtype (heap (init rs t0) r) = TreeDeco \<and> healthOr100 (heap (init rs t0) r) \<le> 0"
    if "r \<in> set (fallingTrees (init rs t0))" for r
    using that by (simp add: init_fields(4))
  show "r \<in> set (fallingTrees (init rs t0))"
    if "r \<in> set (decoRefs (world (init rs t0)))" "dtype (heap (init rs t0) r) = TreeDeco"
       "healthOr100 (heap (init rs t0) r) \<le> 0" for r
    using init_heap[OF that(2)] that(3) by (simp add: healthOr100_def)
qed

lemma reachable_inv: "reachable g \<Longrightarrow> inv g"
  by (induction rule: reachable.induct) (simp_all add: inv_init inv_frame)

subsection \<open>The sample session is the initial state for its stream of draws\<close>

lemma upt20: "[0..<20] = [0,1,2,3,4,5,6,7,8,9,10,11,12,13,14,15,16,17,18,19::nat]"
  by (simp add: upt_rec)

lemma gen_demo:
  "generateWorld (emptyEnv demoRnd) =
     (world demoGame,
      \<lparr>rnd = demoRnd, rpos = 1278, heap = heap demoGame, nextRef = 1, scene = {0}\<rparr>)"
  by (simp add: generateWorld_def WORLD_SIZE_def upt20 createTile_def distFromCenter_def
      distFromEdge_def sqrt_less_3 random_def emptyEnv_def demoRnd_def createDecoration_def
      Let_def newDecoration_def skipRandom_def plainDecoration_def demoGame_def demoTile_def)

lemma demo_candidate:
  "x < 20 \<Longrightarrow> y < 20 \<Longrightarrow>
   spawnCandidate (heap demoGame) (world demoGame ! x ! y) \<longleftrightarrow>
     \<not> distFromCenter x y < 3 \<and> \<not> (x = 1 \<and> y = 1)"
  by (simp add: spawnCandidate_def demo_tile WORLD_SIZE_def demoTile_def demo_heap0
      plainDecoration_def)

lemma demo_valid:
  "validPositions (world demoGame) (heap demoGame) =
     concat (map (\<lambda>x. map (\<lambda>y. (x, y))
                        (filter (\<lambda>y. \<not> distFromCenter x y < 3 \<and> \<not> (x = 1 \<and> y = 1)) [0..<20]))
                 [0..<20])"
  unfolding validPositions_def WORLD_SIZE_def
  by (intro arg_cong[where f=concat] map_cong refl filter_cong) (simp_all add: demo_candidate)

lemma demo_valid_length:
  "length (validPositions (world demoGame) (heap demoGame)) = 374"
  by (simp add: demo_valid upt20 distFromCenter_def WORLD_SIZE_def sqrt_less_3)

lemma demo_valid_1:
  "validPositions (world demoGame) (heap demoGame) ! Suc 0 = (0, 1)"
  by (simp add: demo_valid upt20 distFromCenter_def WORLD_SIZE_def sqrt_less_3)

lemma demo_spawn:
  "getSpawnPosition (world demoGame)
      \<lparr>rnd = demoRnd, rpos = 1278, heap = heap demoGame, nextRef = 1, scene = {0}\<rparr>
   = ((0, 1), \<lparr>rnd = demoRnd, rpos = 1279, heap = heap demoGame, nextRef = 1, scene = {0}\<rparr>)"
proof -
  have "\<lfloor>(0.004::real) * 374\<rfloor> = 1" by (simp add: floor_eq_iff)
  moreover have "validPositions (world demoGame) (heap demoGame) \<noteq> []"
    using demo_valid_length by auto
  ultimately show ?thesis
    by (simp add: getSpawnPosition_def Let_def demo_valid_length demo_valid_1 random_def
        demoRnd_def)
qed

lemma init_demo: "init demoRnd 0 = demoGame"
proof -
  have "init demoRnd 0 =
     \<lparr>rnd = demoRnd, rpos = 1279, heap = heap demoGame, nextRef = 1, scene = {0},
      world = world demoGame, player = createPlayer 0 1,
      input = \<lparr>up = False, down = False, left = False, right = False\<rparr>,
      isMoving = False, chopCooldown = 0, fallingTrees = [], lastTime = 0\<rparr>"
    unfolding init_def gen_demo Let_def prod.case demo_spawn by simp
  also have "\<dots> = demoGame" by (simp add: demoGame_def)
  finally show ?thesis .
qed

lemma demoRnd_range: "0 \<le> demoRnd n \<and> demoRnd n < 1"
  by (simp add: demoRnd_def)

lemma reachable_demoGame: "reachable demoGame"
  using reachable_init[of demoRnd 0] demoRnd_range by (simp add: init_demo)


subsection \<open>What a frame leaves alone\<close>

lemma updateFallingTree_keeps:
  "health (heap (updateFallingTree dt i g) r) = health (heap g r) \<and>
   dtype (heap (updateFallingTree dt i g) r) = dtype (heap g r) \<and>
   chopCooldown (updateFallingTree dt i g) = chopCooldown g \<and>
   lastTime (updateFallingTree dt i g) = lastTime g \<and>
   isMoving (updateFallingTree dt i g) = isMoving g \<and>
   player (updateFallingTree dt i g) = player g \<and>
   input (updateFallingTree dt i g) = input g"
  by (simp add: updateFallingTree_eq stepTree_fields)

lemma fallingLoop_keeps:
  "health (heap (fallingLoop dt n g) r) = health (heap g r) \<and>
   dtype (heap (fallingLoop dt n g) r) = dtype (heap g r) \<and>
   chopCooldown (fallingLoop dt n g) = chopCooldown g \<and>
   lastTime (fallingLoop dt n g) = lastTime g \<and>
   isMoving (fallingLoop dt n g) = isMoving g \<and>
   player (fallingLoop dt n g) = player g \<and>
   input (fallingLoop dt n g) = input g"
proof (induction n arbitrary: g)
  case 0
  then show ?case by simp
next
  case (Suc n)
  show ?case
    using Suc.IH[of "updateFallingTree dt n g"] updateFallingTree_keeps[of dt n g r]
    by simp
qed

lemmas updateFallingTrees_keeps = fallingLoop_keeps[of "d / 1000" "length (fallingTrees g)" g,
    folded updateFallingTrees_def] for d g

text \<open>The cooldown as \<^verbatim>\<open>update\<close> leaves it for \<^verbatim>\<open>updatePlayer\<close>.\<close>

lemma frame_unfold:
  "frame f g =
     updateFallingTrees (frameDelta f g)
       (updatePlayer (frameDelta f g)
          (g\<lparr>input := snd f, lastTime := fst f, chopCooldown := cooled (frameDelta f g) g\<rparr>))"
  by (simp add: frame_def gameLoop_def update_def cooled_def frameDelta_def)


lemma frameDelta_bounds: "lastTime g \<le> fst f \<Longrightarrow> 0 \<le> frameDelta f g"
  "frameDelta f g \<le> fst f - lastTime g" "frameDelta f g \<le> 50"
  by (simp_all add: frameDelta_def)

lemma frame_lastTime [simp]: "lastTime (frame f g) = fst f"
  by (simp add: frame_unfold updateFallingTrees_keeps updatePlayer_fields)

lemma frame_input [simp]: "input (frame f g) = snd f"
  by (simp add: frame_unfold updateFallingTrees_keeps updatePlayer_fields)

text \<open>A frame either chops, which re-arms the cooldown, or leaves every health alone.\<close>

lemma frame_chop_or_not:
  fixes f g
  defines "g1 \<equiv> g\<lparr>input := snd f, lastTime := fst f, chopCooldown := cooled (frameDelta f g) g\<rparr>"
  shows "(chopTarget g1 \<noteq> None \<and> cooled (frameDelta f g) g \<le> 0 \<and> chopCooldown (frame f g) = 300)
       \<or> (chopTarget g1 = None \<and> chopCooldown (frame f g) = cooled (frameDelta f g) g \<and>
            (\<forall>r. health (heap (frame f g) r) = health (heap g r)))"
proof (cases "chopTarget g1")
  case None
  have "chopCooldown (frame f g) = cooled (frameDelta f g) g"
    using updatePlayer_nochop(3)[OF None, of "frameDelta f g"]
    by (simp add: frame_unfold updateFallingTrees_keeps g1_def)
  moreover have "health (heap (frame f g) r) = health (heap g r)" for r
    using updatePlayer_nochop(1)[OF None, of "frameDelta f g"]
    by (simp add: frame_unfold updateFallingTrees_keeps g1_def[symmetric]) (simp add: g1_def)
  ultimately show ?thesis using None by simp
next
  case (Some r)
  then have "chopCooldown g1 \<le> 0"
    by (auto simp: chopTarget_def Let_def split: if_splits)
  then have c: "cooled (frameDelta f g) g \<le> 0" by (simp add: g1_def)
  have "chopCooldown (updatePlayer (frameDelta f g) g1) = 300"
    using updatePlayer_chop[OF Some, of "frameDelta f g"] by (simp split: if_splits)
  then have "chopCooldown (frame f g) = 300"
    by (simp add: frame_unfold updateFallingTrees_keeps g1_def)
  then show ?thesis using Some c by simp
qed

lemma frame_cooldown_cases:
  "chopCooldown (frame f g) = 300 \<or> chopCooldown (frame f g) = cooled (frameDelta f g) g"
  using frame_chop_or_not[of f g] by auto

lemma frame_health_changed:
  assumes "health (heap (frame f g) r) \<noteq> health (heap g r)"
  shows "cooled (frameDelta f g) g \<le> 0 \<and> chopCooldown (frame f g) = 300"
  using frame_chop_or_not[of f g] assms by auto

lemma cooldown_lower:
  assumes "forward (lastTime g) (map fst fs)"
    and "300 - (lastTime g - t1) \<le> chopCooldown g" and "t1 \<le> lastTime g"
  shows "300 - (lastTime (frames fs g) - t1) \<le> chopCooldown (frames fs g)
         \<and> t1 \<le> lastTime (frames fs g)"
  using assms
proof (induction fs arbitrary: g)
  case Nil
  then show ?case by simp
next
  case (Cons f fs)
  have le: "lastTime g \<le> fst f" and fw: "forward (fst f) (map fst fs)"
    using Cons.prems(1) by simp_all
  have d: "0 \<le> frameDelta f g" "frameDelta f g \<le> fst f - lastTime g"
    using frameDelta_bounds[where f=f and g=g] le by simp_all
  have "300 - (fst f - t1) \<le> cooled (frameDelta f g) g"
    using Cons.prems(2) d le by (auto simp: cooled_def)
  moreover have "300 - (fst f - t1) \<le> 300" using le Cons.prems(3) by simp
  ultimately have "300 - (lastTime (frame f g) - t1) \<le> chopCooldown (frame f g)"
    using frame_cooldown_cases[of f g] by auto
  moreover have "t1 \<le> lastTime (frame f g)" using le Cons.prems(3) by simp
  ultimately show ?case using Cons.IH[of "frame f g"] fw by simp
qed


subsection \<open>Frames of an idle player who faces a tree\<close>

lemma facing_blocked:
  assumes "wf_world (world g)" and "facingTree g (input g) r" and "0 < healthOr100 (heap g r)"
  shows "\<not> isWalkable g (real_of_int (fst (intentTarget g))) (real_of_int (snd (intentTarget g)))"
  using assms wf_world_bounds[OF assms(1)]
  by (simp add: facingTree_def isWalkable_def intentTarget_def Let_def)

lemma chopTarget_facing:
  assumes "wf_world (world g)" and "facingTree g (input g) r" and "0 < healthOr100 (heap g r)"
  shows "chopTarget g = (if chopCooldown g \<le> 0 then Some r else None)"
  using assms facing_blocked[OF assms] wf_world_bounds[OF assms(1)]
  by (simp add: chopTarget_def facingTree_def intentTarget_def Let_def)

lemma updatePlayer_blocked:
  assumes "\<not> isMoving g" and "intentX (input g) \<noteq> 0 \<or> intentY (input g) \<noteq> 0"
    and "\<not> isWalkable g (real_of_int (fst (intentTarget g))) (real_of_int (snd (intentTarget g)))"
  shows "\<not> isMoving (updatePlayer d g)"
    and "p_x (player (updatePlayer d g)) = p_x (player g)"
    and "p_y (player (updatePlayer d g)) = p_y (player g)"
proof -
  let ?g1 = "g\<lparr>player := (player g)\<lparr>direction := atan2 (real_of_int (intentY (input g)))
                                                   (real_of_int (intentX (input g)))\<rparr>\<rparr>"
  have w1: "isWalkable ?g1 (real_of_int (fst (intentTarget g))) (real_of_int (snd (intentTarget g)))
       = isWalkable g (real_of_int (fst (intentTarget g))) (real_of_int (snd (intentTarget g)))"
    by (rule isWalkable_cong) simp_all
  have "updatePlayer d g = tryChop (fst (intentTarget g)) (snd (intentTarget g)) ?g1"
    using assms w1 by (simp add: updatePlayer_def Let_def intentTarget_def)
  then show "\<not> isMoving (updatePlayer d g)"
    and "p_x (player (updatePlayer d g)) = p_x (player g)"
    and "p_y (player (updatePlayer d g)) = p_y (player g)"
    using assms(1) by (simp_all add: tryChop_fields)
qed

lemma blocked_frame:
  assumes I: "inv g" and F: "facingTree g i r" and H: "0 < healthOr100 (heap g r)"
    and T: "lastTime g \<le> t"
  shows "facingTree (frame (t, i) g) i r"
    and "cooled (frameDelta (t, i) g) g \<le> 0 \<Longrightarrow>
           health (heap (frame (t, i) g) r) = Some (healthOr100 (heap g r) - 34) \<and>
           chopCooldown (frame (t, i) g) = 300"
    and "0 < cooled (frameDelta (t, i) g) g \<Longrightarrow>
           health (heap (frame (t, i) g) r) = health (heap g r) \<and>
           chopCooldown (frame (t, i) g) = cooled (frameDelta (t, i) g) g"
    and "healthOr100 (heap (frame (t, i) g) r) \<le> 0 \<Longrightarrow>
           state (heap (frame (t, i) g) r) \<noteq> Some Healthy"
    and "cooled (frameDelta (t, i) g) g \<le> 0 \<Longrightarrow> healthOr100 (heap g r) \<le> 34 \<Longrightarrow>
           r \<in> set (fallingTrees (frame (t, i) g)) \<and>
           (\<exists>dir. heap (frame (t, i) g) r =
                    stepTree (frameDelta (t, i) g / 1000) (hitTree dir (heap g r)))"
proof -
  define d where "d = frameDelta (t, i) g"
  define g1 where "g1 = g\<lparr>input := i, lastTime := t, chopCooldown := cooled d g\<rparr>"
  define g2 where "g2 = updatePlayer d g1"
  have fr: "frame (t, i) g = updateFallingTrees d g2"
    by (simp add: frame_unfold d_def g1_def g2_def)
  have d0: "0 \<le> d" using frameDelta_bounds(1)[where f="(t, i)" and g=g] T by (simp add: d_def)
  have I1: "inv g1" unfolding g1_def by (rule inv_fields[OF I]) simp_all
  have I2: "inv g2" unfolding g2_def by (rule inv_updatePlayer[OF I1])
  have I3: "inv (frame (t, i) g)" unfolding fr by (rule inv_updateFallingTrees[OF I2 d0])
  note D1 = invD[OF I1] and D2 = invD[OF I2]
  have F1: "facingTree g1 (input g1) r" using F by (simp add: g1_def facingTree_def)
  have H1: "0 < healthOr100 (heap g1 r)" using H by (simp add: g1_def)
  have tr: "dtype (heap g1 r) = TreeDeco" using F1 by (simp add: facingTree_def)
  have st1: "state (heap g1 r) = Some Healthy"
    using D1(5)[OF tr] H1 by (simp add: treeOk_def)
  have ct: "chopTarget g1 = (if cooled d g \<le> 0 then Some r else None)"
    using chopTarget_facing[OF D1(1) F1 H1] by (simp add: g1_def)
  have bl: "\<not> isWalkable g1 (real_of_int (fst (intentTarget g1)))
                             (real_of_int (snd (intentTarget g1)))"
    by (rule facing_blocked[OF D1(1) F1 H1])
  have idle1: "\<not> isMoving g1" and int1: "intentX (input g1) \<noteq> 0 \<or> intentY (input g1) \<noteq> 0"
    using F1 by (simp_all add: facingTree_def)
  note P = updatePlayer_blocked[OF idle1 int1 bl, of d, folded g2_def]
  have w2: "world g2 = world g" by (simp add: g2_def updatePlayer_fields g1_def)
  have h2: "heap g2 r = (if cooled d g \<le> 0
              then hitTree (awayFromPlayer
                     (world g1 ! nat (fst (intentTarget g1)) ! nat (snd (intentTarget g1)))
                     (player g1)) (heap g r)
              else heap g r)"
    and c2: "chopCooldown g2 = (if cooled d g \<le> 0 then 300 else cooled d g)"
  proof -
    show "heap g2 r = (if cooled d g \<le> 0
              then hitTree (awayFromPlayer
                     (world g1 ! nat (fst (intentTarget g1)) ! nat (snd (intentTarget g1)))
                     (player g1)) (heap g r)
              else heap g r)"
    proof (cases "cooled d g \<le> 0")
      case True
      then have "chopTarget g1 = Some r" using ct by simp
      from updatePlayer_chop[OF this, of d] H1 True show ?thesis
        by (simp add: g2_def) (simp add: g1_def)
    next
      case False
      then have "chopTarget g1 = None" using ct by simp
      from updatePlayer_nochop(1)[OF this, of d] False show ?thesis
        by (simp add: g2_def) (simp add: g1_def)
    qed
    show "chopCooldown g2 = (if cooled d g \<le> 0 then 300 else cooled d g)"
    proof (cases "cooled d g \<le> 0")
      case True
      then have "chopTarget g1 = Some r" using ct by simp
      from updatePlayer_chop[OF this, of d] H1 True show ?thesis
        by (simp add: g2_def)
    next
      case False
      then have "chopTarget g1 = None" using ct by simp
      from updatePlayer_nochop(3)[OF this, of d] False show ?thesis
        by (simp add: g2_def) (simp add: g1_def)
    qed
  qed
  have st2: "state (heap g2 r) \<noteq> Some Fading"
    using st1 by (simp add: h2 hitTree_def g1_def)
  have dt2: "dtype (heap g2 r) = TreeDeco"
    using tr by (simp add: h2 hitTree_fields g1_def)
  define R where "R = {q \<in> set (fallingTrees g2). fadedOut (d / 1000) (heap g2 q)}"
  have rR: "r \<notin> R" using st2 by (simp add: R_def fadedOut_def)
  note eq = updateFallingTrees_eq[OF D2(3) D2(2), of d, folded R_def]
  have w3: "world (frame (t, i) g) = map (map (clearRefs R)) (world g)"
    by (simp add: fr eq w2)
  have keep: "health (heap (frame (t, i) g) q) = health (heap g2 q)"
    "dtype (heap (frame (t, i) g) q) = dtype (heap g2 q)"
    "chopCooldown (frame (t, i) g) = chopCooldown g2"
    "isMoving (frame (t, i) g) = isMoving g2"
    "player (frame (t, i) g) = player g2" for q
    using updateFallingTrees_keeps[of d g2 q] by (simp_all add: fr)
  let ?x = "nat (round (p_x (player g)) + intentX i)"
  let ?y = "nat (round (p_y (player g)) + intentY i)"
  have ig: "inGrid (round (p_x (player g)) + intentX i) (round (p_y (player g)) + intentY i)"
    and dc: "decoration (world g ! ?x ! ?y) = Some r"
    using F by (simp_all add: facingTree_def)
  have wf: "wf_world (world g)" using invD(1)[OF I] .
  have xl: "?x < length (world g)" using ig wf by (auto simp: inGrid_def wf_world_def)
  have yl: "?y < length (world g ! ?x)"
    using ig wf_world_nth[OF wf, of ?x] by (auto simp: inGrid_def)
  have dc3: "decoration (world (frame (t, i) g) ! ?x ! ?y) = Some r"
    using xl yl dc rR by (simp add: w3 clearRefs_def)
  have pl: "p_x (player g2) = p_x (player g)" "p_y (player g2) = p_y (player g)"
    using P(2,3) by (simp_all add: g1_def)
  show "facingTree (frame (t, i) g) i r"
    using F P(1) dc3 dt2 ig by (simp add: facingTree_def keep pl)
  show "health (heap (frame (t, i) g) r) = Some (healthOr100 (heap g r) - 34) \<and>
        chopCooldown (frame (t, i) g) = 300" if "cooled (frameDelta (t, i) g) g \<le> 0"
    using that by (simp add: keep h2 c2 hitTree_fields d_def[symmetric])
  show "health (heap (frame (t, i) g) r) = health (heap g r) \<and>
        chopCooldown (frame (t, i) g) = cooled (frameDelta (t, i) g) g"
    if "0 < cooled (frameDelta (t, i) g) g"
    using that by (simp add: keep h2 c2 d_def[symmetric])
  show "state (heap (frame (t, i) g) r) \<noteq> Some Healthy"
    if "healthOr100 (heap (frame (t, i) g) r) \<le> 0"
  proof -
    have "dtype (heap (frame (t, i) g) r) = TreeDeco" by (simp add: keep dt2)
    from invD(5)[OF I3 this] that show ?thesis by (auto simp: treeOk_def)
  qed
  show "r \<in> set (fallingTrees (frame (t, i) g)) \<and>
        (\<exists>dir. heap (frame (t, i) g) r =
                 stepTree (frameDelta (t, i) g / 1000) (hitTree dir (heap g r)))"
    if c: "cooled (frameDelta (t, i) g) g \<le> 0" and h: "healthOr100 (heap g r) \<le> 34"
  proof -
    have rd: "r \<in> set (decoRefs (world g2))" using decoRefs_nth[OF xl yl dc] by (simp add: w2)
    have "healthOr100 (heap g2 r) \<le> 0" using c h by (simp add: h2 hitTree_fields d_def)
    then have r2: "r \<in> set (fallingTrees g2)" using D2(8)[OF rd dt2] by simp
    have r3: "r \<in> set (fallingTrees (frame (t, i) g))" using r2 rR by (auto simp: fr eq R_def)
    have "heap (frame (t, i) g) r = stepTree (d / 1000) (heap g2 r)"
      using r2 by (simp add: fr eq)
    then have "heap (frame (t, i) g) r = stepTree (frameDelta (t, i) g / 1000)
                 (hitTree (awayFromPlayer
                     (world g1 ! nat (fst (intentTarget g1)) ! nat (snd (intentTarget g1)))
                     (player g1)) (heap g r))"
      using c by (simp add: h2 d_def)
    then have "\<exists>dir. heap (frame (t, i) g) r =
                 stepTree (frameDelta (t, i) g / 1000) (hitTree dir (heap g r))"
      by blast
    with r3 show ?thesis by simp
  qed
qed

subsection \<open>Runs of frames\<close>

lemma frames_lastTime: "lastTime (frames fs g) = last (lastTime g # map fst fs)"
  by (induction fs arbitrary: g) simp_all

lemma forward_append:
  "forward t (xs @ [u]) \<longleftrightarrow> forward t xs \<and> last (t # xs) \<le> u"
  by (induction xs arbitrary: t) auto

lemma steady_forward: "steady t ts \<Longrightarrow> forward t ts"
  by (induction ts arbitrary: t) auto

lemma inv_frames:
  "inv g \<Longrightarrow> forward (lastTime g) (map fst fs) \<Longrightarrow> inv (frames fs g)"
  by (induction fs arbitrary: g) (simp_all add: inv_frame)

text \<open>A frame never changes the health of a tree that is already down.\<close>

lemma frame_dead_stays:
  assumes "healthOr100 (heap g r) \<le> 0"
  shows "health (heap (frame f g) r) = health (heap g r)"
proof -
  define g1 where
    "g1 = g\<lparr>input := snd f, lastTime := fst f, chopCooldown := cooled (frameDelta f g) g\<rparr>"
  have "health (heap (updatePlayer (frameDelta f g) g1) r) = health (heap g1 r)"
  proof (cases "chopTarget g1")
    case None
    then show ?thesis using updatePlayer_nochop(1)[OF None] by simp
  next
    case (Some q)
    show ?thesis
    proof (cases "q = r")
      case True
      then show ?thesis
        using updatePlayer_chop[OF Some, of "frameDelta f g"] assms by (simp add: g1_def)
    next
      case False
      then show ?thesis
        using updatePlayer_chop[OF Some, of "frameDelta f g"] by (simp split: if_splits)
    qed
  qed
  then show ?thesis
    by (simp add: frame_unfold updateFallingTrees_keeps g1_def[symmetric]) (simp add: g1_def)
qed

lemma frames_dead_stay:
  assumes "healthOr100 (heap g r) \<le> 0"
  shows "health (heap (frames fs g) r) = health (heap g r)"
  using assms
proof (induction fs arbitrary: g)
  case Nil
  then show ?case by simp
next
  case (Cons f fs)
  have h: "health (heap (frame f g) r) = health (heap g r)"
    by (rule frame_dead_stays[OF Cons.prems])
  then have "healthOr100 (heap (frame f g) r) \<le> 0"
    using Cons.prems by (simp add: healthOr100_def)
  from Cons.IH[OF this] h show ?case by simp
qed

text \<open>
  Holding the keys: with \<open>Suc m\<close> chops to go, the tree is down once the time stamps have
  advanced by more than the rest of the running cooldown plus \<open>m\<close> times 350 ms (a
  cooldown and at most one frame of 50 ms).
\<close>

lemma hold_keys:
  assumes "inv g" and "facingTree g i r"
    and "34 * int m < healthOr100 (heap g r)" and "healthOr100 (heap g r) \<le> 34 * (int m + 1)"
    and "\<forall>f \<in> set fs. snd f = i" and "steady (lastTime g) (map fst fs)"
    and "max (chopCooldown g) 0 + 350 * real m < lastTime (frames fs g) - lastTime g"
  shows "health (heap (frames fs g) r) = Some (healthOr100 (heap g r) - 34 * (int m + 1))"
  using assms
proof (induction fs arbitrary: g m)
  case Nil
  then show ?case by simp
next
  case (Cons f fs)
  obtain t where f: "f = (t, i)" using Cons.prems(5) by (cases f) auto
  have le: "lastTime g \<le> t" and gap: "t - lastTime g \<le> 50"
    and st: "steady t (map fst fs)"
    using Cons.prems(6) by (simp_all add: f)
  have H: "0 < healthOr100 (heap g r)" using Cons.prems(3) by linarith
  note B = blocked_frame[OF Cons.prems(1,2) H le]
  have d: "frameDelta (t, i) g = t - lastTime g" using gap by (simp add: frameDelta_def)
  let ?g = "frame (t, i) g"
  have I': "inv ?g" using inv_frame[OF Cons.prems(1), of "(t, i)"] le by simp
  have lt: "lastTime ?g = t" by simp
  have all: "\<forall>f \<in> set fs. snd f = i" using Cons.prems(5) by simp
  have dur: "max (chopCooldown g) 0 + 350 * real m < lastTime (frames fs ?g) - lastTime g"
    using Cons.prems(7) by (simp add: f)
  show ?case
  proof (cases "cooled (frameDelta (t, i) g) g \<le> 0")
    case False
    then have c: "0 < cooled (frameDelta (t, i) g) g" by simp
    then have cd: "0 < chopCooldown g" and cv: "cooled (frameDelta (t, i) g) g = chopCooldown g - (t - lastTime g)"
      by (auto simp: cooled_def d split: if_splits)
    have h': "healthOr100 (heap ?g r) = healthOr100 (heap g r)"
      using B(3)[OF c] by (simp add: healthOr100_def)
    have c': "chopCooldown ?g = chopCooldown g - (t - lastTime g)" using B(3)[OF c] cv by simp
    have "max (chopCooldown ?g) 0 + 350 * real m < lastTime (frames fs ?g) - lastTime ?g"
      using dur c' cd c cv by simp
    from Cons.IH[OF I' B(1) _ _ all _ this] Cons.prems(3,4) st h'
    show ?thesis by (simp add: f)
  next
    case True
    have hv: "health (heap ?g r) = Some (healthOr100 (heap g r) - 34)"
      and c': "chopCooldown ?g = 300"
      using B(2)[OF True] by simp_all
    have h': "healthOr100 (heap ?g r) = healthOr100 (heap g r) - 34"
      using hv by (simp add: healthOr100_def)
    show ?thesis
    proof (cases m)
      case 0
      then have "healthOr100 (heap ?g r) \<le> 0" using Cons.prems(4) h' by simp
      from frames_dead_stay[OF this, of fs] hv 0 show ?thesis by (simp add: f)
    next
      case (Suc k)
      have a: "34 * int k < healthOr100 (heap ?g r)"
        and b: "healthOr100 (heap ?g r) \<le> 34 * (int k + 1)"
        using Cons.prems(3,4) h' Suc by simp_all
      have "max (chopCooldown ?g) 0 + 350 * real k < lastTime (frames fs ?g) - lastTime ?g"
        using dur c' gap le Suc by simp
      from Cons.IH[OF I' B(1) a b all _ this] st h' Suc
      show ?thesis by (simp add: f)
    qed
  qed
qed

lemma reachable_frames:
  "reachable g \<Longrightarrow> forward (lastTime g) (map fst fs) \<Longrightarrow> reachable (frames fs g)"
  by (induction fs arbitrary: g) (simp_all add: reachable_frame)

lemma frame_dtype: "dtype (heap (frame f g) r) = dtype (heap g r)"
proof -
  define g1 where
    "g1 = g\<lparr>input := snd f, lastTime := fst f, chopCooldown := cooled (frameDelta f g) g\<rparr>"
  have "dtype (heap (updatePlayer (frameDelta f g) g1) r) = dtype (heap g1 r)"
  proof (cases "chopTarget g1")
    case None
    then show ?thesis using updatePlayer_nochop(1)[OF None] by simp
  next
    case (Some q)
    then have "dtype (heap g1 q) = TreeDeco"
      by (auto simp: chopTarget_def Let_def split: if_splits option.splits)
    then show ?thesis
      using updatePlayer_chop[OF Some, of "frameDelta f g"]
      by (auto simp: hitTree_fields split: if_splits)
  qed
  then show ?thesis
    by (simp add: frame_unfold updateFallingTrees_keeps g1_def[symmetric]) (simp add: g1_def)
qed

lemma frames_dtype: "dtype (heap (frames fs g) r) = dtype (heap g r)"
  by (induction fs arbitrary: g) (simp_all add: frame_dtype)

lemma forward_last: "forward t ts \<Longrightarrow> t \<le> last (t # ts)"
  by (induction ts arbitrary: t) (auto intro: order_trans)

text \<open>Frames in which the cooldown does not run out leave the tree as it is.\<close>

lemma wait_frames:
  assumes "inv g" and "facingTree g i r" and "0 < healthOr100 (heap g r)"
    and "\<forall>f \<in> set fs. snd f = i" and "steady (lastTime g) (map fst fs)"
    and "0 < chopCooldown g - (lastTime (frames fs g) - lastTime g)"
  shows "inv (frames fs g) \<and> facingTree (frames fs g) i r \<and>
         health (heap (frames fs g) r) = health (heap g r) \<and>
         chopCooldown (frames fs g) = chopCooldown g - (lastTime (frames fs g) - lastTime g)"
  using assms
proof (induction fs arbitrary: g)
  case Nil
  then show ?case by simp
next
  case (Cons f fs)
  obtain t where f: "f = (t, i)" using Cons.prems(4) by (cases f) auto
  have le: "lastTime g \<le> t" and gap: "t - lastTime g \<le> 50"
    and st: "steady t (map fst fs)"
    using Cons.prems(5) by (simp_all add: f)
  let ?g = "frame (t, i) g"
  have tl: "t \<le> lastTime (frames fs ?g)"
    using forward_last[OF steady_forward[OF st]] by (simp add: frames_lastTime)
  have cd: "0 < chopCooldown g - (t - lastTime g)"
    using Cons.prems(6) tl by (simp add: f)
  have d: "frameDelta (t, i) g = t - lastTime g" using gap by (simp add: frameDelta_def)
  have c: "0 < cooled (frameDelta (t, i) g) g"
    using cd le by (auto simp: cooled_def d)
  have cv: "cooled (frameDelta (t, i) g) g = chopCooldown g - (t - lastTime g)"
    using cd le by (auto simp: cooled_def d)
  note B = blocked_frame[OF Cons.prems(1,2,3) le]
  have I': "inv ?g" using inv_frame[OF Cons.prems(1), of "(t, i)"] le by simp
  have h': "health (heap ?g r) = health (heap g r)" and c': "chopCooldown ?g = chopCooldown g - (t - lastTime g)"
    using B(3)[OF c] cv by simp_all
  have H': "0 < healthOr100 (heap ?g r)" using Cons.prems(3) h' by (simp add: healthOr100_def)
  have all: "\<forall>f \<in> set fs. snd f = i" using Cons.prems(4) by simp
  have "0 < chopCooldown ?g - (lastTime (frames fs ?g) - lastTime ?g)"
    using Cons.prems(6) c' by (simp add: f)
  from Cons.IH[OF I' B(1) H' all _ this] st h' c'
  show ?case by (simp add: f)
qed

subsection \<open>Facts about the sample session\<close>

lemma demo_fields:
  "lastTime demoGame = 0" "chopCooldown demoGame = 0" "isMoving demoGame = False"
  "p_x (player demoGame) = 0" "p_y (player demoGame) = 1"
  "health (heap demoGame 0) = Some 100" "healthOr100 (heap demoGame 0) = 100"
  "dtype (heap demoGame 0) = TreeDeco"
  by (simp_all add: demoGame_def createPlayer_def plainDecoration_def healthOr100_def)

lemma demo_facing: "facingTree demoGame demoRight 0"
  by (simp add: facingTree_def demo_fields demoRight_def intentX_def intentY_def inGrid_def
      WORLD_SIZE_def demo_tile11 demoTile_def)

lemma upt_1_19: "[Suc 0..<19] = [1,2,3,4,5,6,7,8,9,10,11,12,13,14,15,16,17,18::nat]"
  by (simp add: upt_rec)

lemma demoHold_facts:
  "\<forall>f \<in> set demoHold. snd f = demoRight"
  "steady 0 (map fst demoHold)"
  "last (0 # map fst demoHold) = 900"
  by (simp_all add: demoHold_def upt_1_19)

lemma demoHold_lastTime: "lastTime (frames demoHold demoGame) = 900"
  by (simp only: frames_lastTime demo_fields demoHold_facts(3))

lemma demo_felled:
  "health (heap (frames demoHold demoGame) 0) = Some (- 2)"
proof -
  have "max (chopCooldown demoGame) 0 + 350 * real (2::nat)
          < lastTime (frames demoHold demoGame) - lastTime demoGame"
    by (simp add: demoHold_lastTime demo_fields)
  from hold_keys[OF reachable_inv[OF reachable_demoGame] demo_facing _ _ demoHold_facts(1) _ this]
  show ?thesis by (simp add: demo_fields demoHold_facts)
qed

lemma reachable_demo_felled: "reachable (frames demoHold demoGame)"
  by (rule reachable_frames[OF reachable_demoGame])
     (simp add: demo_fields steady_forward demoHold_facts)

subsection \<open>Holding a key in front of a tree\<close>

text \<open>
  C10: while the player is idle and the held keys aim at a tile with a standing tree,
  every frame in which the cooldown, after its decrement, is at most 0 chops: the health
  drops by 34, the cooldown is re-armed to 300 ms, and the player still faces the tree
  with the same keys, so the next such frame chops again without any new key press.
  Starting with an expired cooldown at a tree of health 100, frames at most 50 ms apart
  that span three cooldown periods leave the tree at health -2 and no longer healthy.
\<close>

theorem hold_key_fells_tree:
  "(reachable g \<and> facingTree g i r \<and> 0 < healthOr100 (heap g r) \<and> lastTime g \<le> t \<and>
    cooled (frameDelta (t, i) g) g \<le> 0 \<longrightarrow>
      health (heap (frame (t, i) g) r) = Some (healthOr100 (heap g r) - 34) \<and>
      chopCooldown (frame (t, i) g) = 300 \<and>
      facingTree (frame (t, i) g) i r)
   \<and> (reachable g \<and> facingTree g i r \<and> health (heap g r) = Some 100 \<and>
      chopCooldown g \<le> 0 \<and> (\<forall>f \<in> set fs. snd f = i) \<and>
      steady (lastTime g) (map fst fs) \<and>
      3 * 300 \<le> lastTime (frames fs g) - lastTime g \<longrightarrow>
        health (heap (frames fs g) r) = Some (- 2) \<and>
        state (heap (frames fs g) r) \<noteq> Some Healthy)"
proof (intro conjI impI)
  assume A: "reachable g \<and> facingTree g i r \<and> 0 < healthOr100 (heap g r) \<and> lastTime g \<le> t \<and>
    cooled (frameDelta (t, i) g) g \<le> 0"
  then have I: "inv g" by (simp add: reachable_inv)
  note B = blocked_frame[OF I, of i r t]
  show "health (heap (frame (t, i) g) r) = Some (healthOr100 (heap g r) - 34)"
    and "chopCooldown (frame (t, i) g) = 300" and "facingTree (frame (t, i) g) i r"
    using A B(1) B(2) by simp_all
next
  assume A: "reachable g \<and> facingTree g i r \<and> health (heap g r) = Some 100 \<and>
      chopCooldown g \<le> 0 \<and> (\<forall>f \<in> set fs. snd f = i) \<and>
      steady (lastTime g) (map fst fs) \<and>
      3 * 300 \<le> lastTime (frames fs g) - lastTime g"
  then have I: "inv g" and F: "facingTree g i r" and H: "healthOr100 (heap g r) = 100"
    and S: "steady (lastTime g) (map fst fs)" and all: "\<forall>f \<in> set fs. snd f = i"
    by (simp_all add: reachable_inv healthOr100_def)
  have dur: "max (chopCooldown g) 0 + 350 * real (2::nat) < lastTime (frames fs g) - lastTime g"
    using A by simp
  have a: "34 * int 2 < healthOr100 (heap g r)" and b: "healthOr100 (heap g r) \<le> 34 * (int 2 + 1)"
    using H by simp_all
  from hold_keys[OF I F a b all S dur] H
  show h: "health (heap (frames fs g) r) = Some (- 2)" by simp
  have I': "inv (frames fs g)" by (rule inv_frames[OF I steady_forward[OF S]])
  have "dtype (heap (frames fs g) r) = TreeDeco"
    using F by (simp add: frames_dtype facingTree_def)
  from invD(5)[OF I' this] h show "state (heap (frames fs g) r) \<noteq> Some Healthy"
    by (auto simp: treeOk_def healthOr100_def)
qed

theorem hold_key_fells_tree_witness:
  "health (heap (frame (50, demoRight) demoGame) 0) = Some 66 \<and>
   chopCooldown (frame (50, demoRight) demoGame) = 300 \<and>
   facingTree (frame (50, demoRight) demoGame) demoRight 0 \<and>
   health (heap (frames demoHold demoGame) 0) = Some (- 2) \<and>
   state (heap (frames demoHold demoGame) 0) \<noteq> Some Healthy"
proof -
  have c: "cooled (frameDelta (50, demoRight) demoGame) demoGame \<le> 0"
    by (simp add: cooled_def demo_fields)
  have s: "steady (lastTime demoGame) (map fst demoHold)"
    by (simp add: demo_fields demoHold_facts)
  show ?thesis
    using hold_key_fells_tree[of demoGame demoRight 0 50 demoHold]
      reachable_demoGame demo_facing c s demoHold_facts(1)
    by (simp add: demo_fields demoHold_lastTime)
qed

subsection \<open>The range of the health\<close>

text \<open>
  C7, as the code has it: the health of a tree is always one of 100, 66, 32 and -2 (an
  integer between -2 and 100), in every state of a session of \<^verbatim>\<open>game.ts\<close> and for every
  tree that \<^verbatim>\<open>tree.ts\<close> creates, damages and updates. It is not kept above 0: the third
  chop leaves -2.
\<close>

theorem health_values:
  "(reachable g \<and> dtype (heap g r) = TreeDeco \<longrightarrow>
      health (heap g r) \<in> {Some 100, Some 66, Some 32, Some (- 2)})
   \<and> (treeLife t \<longrightarrow> tree_health t \<in> {100, 66, 32, - 2})"
proof (intro conjI impI)
  assume "reachable g \<and> dtype (heap g r) = TreeDeco"
  then have "treeOk (heap g r)" using invD(5)[OF reachable_inv] by simp
  then show "health (heap g r) \<in> {Some 100, Some 66, Some 32, Some (- 2)}"
    by (simp add: treeOk_def)
next
  assume "treeLife t"
  then show "tree_health t \<in> {100, 66, 32, - 2}"
  proof (induction rule: treeLife.induct)
    case (1 x y ox oy)
    then show ?case by (simp add: createTree_def)
  next
    case (2 t now dir)
    then show ?case by (auto simp: damage_def Let_def)
  next
    case (3 t dt)
    then show ?case by (auto simp: tree_update_def Let_def)
  qed
qed

theorem health_values_witness:
  "health (heap demoGame 0) \<in> {Some 100, Some 66, Some 32, Some (- 2)} \<and>
   tree_health (damage 7 (Num 1, Num 0, Num 0) (createTree 1 1 0 0)) \<in> {100, 66, 32, - 2}"
proof -
  have "treeLife (damage 7 (Num 1, Num 0, Num 0) (createTree 1 1 0 0))"
    by (intro treeLife.intros)
  then show ?thesis
    using health_values[of demoGame 0 "damage 7 (Num 1, Num 0, Num 0) (createTree 1 1 0 0)"]
      reachable_demoGame
    by (simp add: demo_fields)
qed

theorem health_range_counterexample:
  "reachable (frames demoHold demoGame) \<and>
   dtype (heap (frames demoHold demoGame) 0) = TreeDeco \<and>
   health (heap (frames demoHold demoGame) 0) = Some (- 2) \<and> \<not> (0::int) \<le> - 2 \<and>
   treeLife (damage 3 (Num 1, Num 0, Num 0) (damage 2 (Num 1, Num 0, Num 0) (damage 1 (Num 1, Num 0, Num 0) (createTree 1 1 0 0)))) \<and>
   tree_health (damage 3 (Num 1, Num 0, Num 0) (damage 2 (Num 1, Num 0, Num 0) (damage 1 (Num 1, Num 0, Num 0) (createTree 1 1 0 0))))
     = - 2"
proof -
  have "treeLife (damage 3 (Num 1, Num 0, Num 0) (damage 2 (Num 1, Num 0, Num 0) (damage 1 (Num 1, Num 0, Num 0) (createTree 1 1 0 0))))"
    by (intro treeLife.intros)
  moreover have "tree_health
      (damage 3 (Num 1, Num 0, Num 0) (damage 2 (Num 1, Num 0, Num 0) (damage 1 (Num 1, Num 0, Num 0) (createTree 1 1 0 0)))) = - 2"
    by (simp add: damage_def createTree_def Let_def)
  ultimately show ?thesis
    using reachable_demo_felled demo_felled by (simp add: frames_dtype demo_fields)
qed

subsection \<open>The cooldown between chops\<close>

text \<open>
  C3: in every run of frames whose time stamps do not run backwards, two frames that
  each change the health of some tree (the same or different ones) are at least 300 ms
  apart. The cooldown is one counter: each of the two frames found it at most 0 after
  the frame's decrement and left it at 300.
\<close>

theorem chop_cooldown_exclusive:
  assumes "forward (lastTime g) (map fst (f1 # fs @ [f2]))"
    and "health (heap (frame f1 g) r1) \<noteq> health (heap g r1)"
    and "health (heap (frame f2 (frames fs (frame f1 g))) r2)
           \<noteq> health (heap (frames fs (frame f1 g)) r2)"
  shows "300 \<le> fst f2 - fst f1 \<and>
         cooled (frameDelta f1 g) g \<le> 0 \<and> chopCooldown (frame f1 g) = 300 \<and>
         cooled (frameDelta f2 (frames fs (frame f1 g))) (frames fs (frame f1 g)) \<le> 0 \<and>
         chopCooldown (frame f2 (frames fs (frame f1 g))) = 300"
proof -
  let ?g1 = "frame f1 g" and ?g2 = "frames fs (frame f1 g)"
  have fw: "forward (fst f1) (map fst fs)" and l2: "last (fst f1 # map fst fs) \<le> fst f2"
    using assms(1) forward_append[of "fst f1" "map fst fs" "fst f2"] by simp_all
  note C1 = frame_health_changed[OF assms(2)]
  note C2 = frame_health_changed[OF assms(3)]
  have "300 - (lastTime ?g2 - fst f1) \<le> chopCooldown ?g2 \<and> fst f1 \<le> lastTime ?g2"
    by (rule cooldown_lower) (use C1 fw in simp_all)
  moreover have lt: "lastTime ?g2 \<le> fst f2" using l2 by (simp add: frames_lastTime)
  moreover have "frameDelta f2 ?g2 \<le> fst f2 - lastTime ?g2"
    by (rule frameDelta_bounds(2))
  moreover have "0 \<le> frameDelta f2 ?g2" using lt by (rule frameDelta_bounds(1))
  ultimately have "300 \<le> fst f2 - fst f1"
    using C2 by (auto simp: cooled_def split: if_splits)
  then show ?thesis using C1 C2 by simp
qed

lemma upt_2_7: "[2..<7] = [2,3,4,5,6::nat]"
  by (simp add: upt_rec)

lemma demoWait_facts:
  "\<forall>f \<in> set demoWait. snd f = demoRight"
  "steady 50 (map fst demoWait)"
  "last (50 # map fst demoWait) = 300"
  "map fst demoWait = [100, 150, 200, 250, 300]"
  by (simp_all add: demoWait_def upt_2_7)

lemma demo_two_chops:
  defines "g1 \<equiv> frame (50, demoRight) demoGame"
  defines "g2 \<equiv> frames demoWait g1"
  shows "health (heap g1 0) = Some 66" and "health (heap g2 0) = Some 66"
    and "health (heap (frame (350, demoRight) g2) 0) = Some 32"
proof -
  note I = reachable_inv[OF reachable_demoGame]
  have le: "lastTime demoGame \<le> 50" by (simp add: demo_fields)
  have H: "0 < healthOr100 (heap demoGame 0)" by (simp add: demo_fields)
  note B = blocked_frame[OF I demo_facing H le, folded g1_def]
  have c: "cooled (frameDelta (50, demoRight) demoGame) demoGame \<le> 0"
    by (simp add: cooled_def demo_fields)
  have h1: "health (heap g1 0) = Some 66" and c1: "chopCooldown g1 = 300"
    using B(2)[OF c] by (simp_all add: demo_fields)
  have l1: "lastTime g1 = 50" by (simp add: g1_def)
  have I1: "inv g1" unfolding g1_def by (rule inv_frame[OF I]) (simp add: demo_fields)
  have H1: "0 < healthOr100 (heap g1 0)" using h1 by (simp add: healthOr100_def)
  have l2: "lastTime g2 = 300"
    by (simp only: g2_def frames_lastTime l1 demoWait_facts(3))
  have W: "inv g2 \<and> facingTree g2 demoRight 0 \<and> health (heap g2 0) = health (heap g1 0) \<and>
         chopCooldown g2 = chopCooldown g1 - (lastTime g2 - lastTime g1)"
    unfolding g2_def
    by (rule wait_frames[OF I1 B(1) H1 demoWait_facts(1)])
       (simp_all add: l1 demoWait_facts(2) c1 l2[unfolded g2_def])
  then have h2: "health (heap g2 0) = Some 66" and c2: "chopCooldown g2 = 50"
    using h1 c1 l1 l2 by simp_all
  have H2: "0 < healthOr100 (heap g2 0)" using h2 by (simp add: healthOr100_def)
  have le2: "lastTime g2 \<le> 350" using l2 by simp
  have c3: "cooled (frameDelta (350, demoRight) g2) g2 \<le> 0"
    by (simp add: cooled_def frameDelta_def c2 l2)
  have hv2: "healthOr100 (heap g2 0) = 66" by (simp add: h2 healthOr100_def)
  have I2: "inv g2" and F2: "facingTree g2 demoRight 0" using W by simp_all
  have "health (heap (frame (350, demoRight) g2) 0) = Some 32"
    using blocked_frame(2)[OF I2 F2 H2 le2 c3] by (simp add: hv2)
  then show "health (heap g1 0) = Some 66" and "health (heap g2 0) = Some 66"
    and "health (heap (frame (350, demoRight) g2) 0) = Some 32"
    using h1 h2 by simp_all
qed

theorem chop_cooldown_exclusive_witness:
  "health (heap (frame (50, demoRight) demoGame) 0) = Some 66 \<and>
   health (heap (frame (350, demoRight) (frames demoWait (frame (50, demoRight) demoGame))) 0)
     = Some 32 \<and>
   (300::real) \<le> 350 - 50 \<and>
   chopCooldown (frame (50, demoRight) demoGame) = 300 \<and>
   chopCooldown (frame (350, demoRight) (frames demoWait (frame (50, demoRight) demoGame))) = 300"
proof -
  have fw: "forward (lastTime demoGame)
      (map fst ((50, demoRight) # demoWait @ [(350, demoRight)]))"
    by (simp add: demo_fields demoWait_facts(4))
  have a: "health (heap (frame (50, demoRight) demoGame) 0) \<noteq> health (heap demoGame 0)"
    by (simp add: demo_two_chops demo_fields)
  have b: "health (heap (frame (350, demoRight) (frames demoWait (frame (50, demoRight) demoGame))) 0)
      \<noteq> health (heap (frames demoWait (frame (50, demoRight) demoGame)) 0)"
    by (simp add: demo_two_chops)
  show ?thesis
    using chop_cooldown_exclusive[OF fw a b] by (simp add: demo_two_chops)
qed

subsection \<open>The tile a movement intent aims at\<close>

lemma updatePlayer_accept:
  assumes "\<not> isMoving g" and "intentX (input g) \<noteq> 0 \<or> intentY (input g) \<noteq> 0"
    and "isWalkable g (real_of_int (fst (intentTarget g))) (real_of_int (snd (intentTarget g)))"
  shows "updatePlayer d g =
     g\<lparr>player := (player g)\<lparr>direction := atan2 (real_of_int (intentY (input g)))
                                                (real_of_int (intentX (input g))),
                              targetX := real_of_int (fst (intentTarget g)),
                              targetY := real_of_int (snd (intentTarget g))\<rparr>,
       isMoving := True\<rparr>"
proof -
  let ?g1 = "g\<lparr>player := (player g)\<lparr>direction := atan2 (real_of_int (intentY (input g)))
                                                   (real_of_int (intentX (input g)))\<rparr>\<rparr>"
  have w1: "isWalkable ?g1 (real_of_int (fst (intentTarget g))) (real_of_int (snd (intentTarget g)))
       = isWalkable g (real_of_int (fst (intentTarget g))) (real_of_int (snd (intentTarget g)))"
    by (rule isWalkable_cong) simp_all
  show ?thesis
    using assms w1 by (simp add: updatePlayer_def Let_def intentTarget_def)
qed

lemma intent_range:
  "intentX i \<in> {- 1, 0, 1}" "intentY i \<in> {- 1, 0, 1}"
  "intentX i \<noteq> 0 \<longleftrightarrow> left i \<noteq> right i" "intentY i \<noteq> 0 \<longleftrightarrow> up i \<noteq> down i"
  by (auto simp: intentX_def intentY_def)

text \<open>
  C6, as the code has it: when an idle player's intent is accepted, the tile that was
  passed to the walkability check becomes the target; it differs from the player's
  rounded tile by at most 1 on each axis and by 1 on at least one. Both axes change, a
  diagonal step, exactly when the held keys give a direction on both axes.
\<close>

theorem step_target:
  assumes "\<not> isMoving g" and "intentX (input g) \<noteq> 0 \<or> intentY (input g) \<noteq> 0"
    and "isWalkable g (real_of_int (fst (intentTarget g))) (real_of_int (snd (intentTarget g)))"
  shows "targetX (player (updatePlayer d g)) = real_of_int (fst (intentTarget g)) \<and>
         targetY (player (updatePlayer d g)) = real_of_int (snd (intentTarget g)) \<and>
         isMoving (updatePlayer d g) \<and>
         \<bar>fst (intentTarget g) - round (p_x (player g))\<bar> \<le> 1 \<and>
         \<bar>snd (intentTarget g) - round (p_y (player g))\<bar> \<le> 1 \<and>
         (\<bar>fst (intentTarget g) - round (p_x (player g))\<bar> = 1 \<or>
          \<bar>snd (intentTarget g) - round (p_y (player g))\<bar> = 1) \<and>
         (fst (intentTarget g) \<noteq> round (p_x (player g)) \<and>
          snd (intentTarget g) \<noteq> round (p_y (player g))
            \<longleftrightarrow> left (input g) \<noteq> right (input g) \<and> up (input g) \<noteq> down (input g))"
proof -
  have "intentX (input g) \<in> {- 1, 0, 1}" "intentY (input g) \<in> {- 1, 0, 1}"
    by (rule intent_range)+
  then show ?thesis
    using assms(2) intent_range(3,4)[of "input g"]
    by (auto simp: updatePlayer_accept[OF assms] intentTarget_def)
qed

lemma demo_walkable_10: "isWalkable demoGame 1 0"
proof -
  have "\<not> outOfBounds (world demoGame) 1 0"
    using wf_world_bounds[OF wf_demoGame, of 1 0] by (simp add: inGrid_def WORLD_SIZE_def)
  moreover have "world demoGame ! Suc 0 ! 0 = demoTile 1 0"
    using demo_tile[of 1 0] by (simp add: WORLD_SIZE_def)
  ultimately show ?thesis
    by (simp add: isWalkable_def demoTile_def distFromCenter_def WORLD_SIZE_def sqrt_less_3)
qed

lemma demo_upright:
  "intentTarget (demoGame\<lparr>input := demoUpRight\<rparr>) = (1, 0)"
  "intentX demoUpRight = 1" "intentY demoUpRight = - 1"
  by (simp_all add: intentTarget_def intentX_def intentY_def demoUpRight_def demo_fields)

theorem step_target_witness:
  "targetX (player (updatePlayer 50 (demoGame\<lparr>input := demoUpRight\<rparr>))) = 1 \<and>
   targetY (player (updatePlayer 50 (demoGame\<lparr>input := demoUpRight\<rparr>))) = 0 \<and>
   isMoving (updatePlayer 50 (demoGame\<lparr>input := demoUpRight\<rparr>))"
proof -
  have w: "isWalkable (demoGame\<lparr>input := demoUpRight\<rparr>) 1 0"
    using demo_walkable_10 isWalkable_cong[of "demoGame\<lparr>input := demoUpRight\<rparr>" demoGame 1 0]
    by simp
  show ?thesis
    using step_target[of "demoGame\<lparr>input := demoUpRight\<rparr>" 50] w
    by (simp add: demo_upright demo_fields)
qed

theorem single_axis_counterexample:
  "intentTarget (demoGame\<lparr>input := demoUpRight\<rparr>) = (1, 0) \<and>
   round (p_x (player demoGame)) = 0 \<and> round (p_y (player demoGame)) = 1 \<and>
   isWalkable demoGame 1 0 \<and>
   targetX (player (frame (50, demoUpRight) demoGame)) = 1 \<and>
   targetY (player (frame (50, demoUpRight) demoGame)) = 0 \<and>
   isMoving (frame (50, demoUpRight) demoGame)"
proof -
  let ?g = "demoGame\<lparr>input := demoUpRight, lastTime := 50,
                      chopCooldown := cooled (frameDelta (50, demoUpRight) demoGame) demoGame\<rparr>"
  have w: "isWalkable ?g (real_of_int (fst (intentTarget ?g))) (real_of_int (snd (intentTarget ?g)))"
    using demo_walkable_10 isWalkable_cong[of ?g demoGame 1 0]
    by (simp add: intentTarget_def demo_upright demo_fields)
  have "updatePlayer (frameDelta (50, demoUpRight) demoGame) ?g =
      ?g\<lparr>player := (player ?g)\<lparr>direction := atan2 (real_of_int (intentY (input ?g)))
                                                (real_of_int (intentX (input ?g))),
                              targetX := real_of_int (fst (intentTarget ?g)),
                              targetY := real_of_int (snd (intentTarget ?g))\<rparr>,
       isMoving := True\<rparr>"
    by (rule updatePlayer_accept[OF _ _ w]) (simp_all add: demo_fields demo_upright)
  then have "targetX (player (frame (50, demoUpRight) demoGame)) = 1 \<and>
     targetY (player (frame (50, demoUpRight) demoGame)) = 0 \<and>
     isMoving (frame (50, demoUpRight) demoGame)"
    by (simp add: frame_unfold updateFallingTrees_keeps intentTarget_def demo_upright demo_fields)
  then show ?thesis
    using demo_walkable_10 by (simp add: demo_upright demo_fields)
qed

subsection \<open>Walkable tiles stay walkable\<close>

lemma isWalkable_mono:
  assumes "isWalkable g x y" and "world g' = world g"
    and "\<And>q. dtype (heap g' q) = dtype (heap g q)"
    and "\<And>q. healthOr100 (heap g' q) \<le> healthOr100 (heap g q)"
  shows "isWalkable g' x y"
proof -
  have "healthOr100 (heap g' q) \<le> 0" if "healthOr100 (heap g q) \<le> 0" for q
    using that assms(4)[of q] by linarith
  then show ?thesis
    using assms(1)
    by (auto simp: isWalkable_def Let_def assms(2) assms(3) split: option.splits if_splits)
qed

lemma inGrid_nat: "inGrid i j \<Longrightarrow> nat i < WORLD_SIZE \<and> nat j < WORLD_SIZE"
  by (auto simp: inGrid_def)

lemma isWalkable_clear:
  assumes "wf_world (world g)" and "isWalkable g x y"
    and "world g' = map (map (clearRefs R)) (world g)"
    and "\<And>q. dtype (heap g' q) = dtype (heap g q)"
    and "\<And>q. healthOr100 (heap g' q) = healthOr100 (heap g q)"
  shows "isWalkable g' x y"
proof -
  have wf': "wf_world (world g')" using assms(1) by (simp add: assms(3) wf_world_map)
  have ig: "inGrid \<lfloor>x\<rfloor> \<lfloor>y\<rfloor>"
    using assms(2) wf_world_bounds[OF assms(1), of "\<lfloor>x\<rfloor>" "\<lfloor>y\<rfloor>"]
    by (cases "outOfBounds (world g) \<lfloor>x\<rfloor> \<lfloor>y\<rfloor>") (simp_all add: isWalkable_def)
  note n = inGrid_nat[OF ig]
  have xl: "nat \<lfloor>x\<rfloor> < length (world g)"
    using assms(1) n by (simp add: wf_world_def)
  have yl: "nat \<lfloor>y\<rfloor> < length (world g ! nat \<lfloor>x\<rfloor>)"
    using n wf_world_nth[OF assms(1), of "nat \<lfloor>x\<rfloor>"] by simp
  have t: "world g' ! nat \<lfloor>x\<rfloor> ! nat \<lfloor>y\<rfloor> = clearRefs R (world g ! nat \<lfloor>x\<rfloor> ! nat \<lfloor>y\<rfloor>)"
    using xl yl by (simp add: assms(3))
  have ob: "\<not> outOfBounds (world g') \<lfloor>x\<rfloor> \<lfloor>y\<rfloor>"
    using ig wf_world_bounds[OF wf'] by simp
  have ob0: "\<not> outOfBounds (world g) \<lfloor>x\<rfloor> \<lfloor>y\<rfloor>"
    using ig wf_world_bounds[OF assms(1)] by simp
  show ?thesis
    using assms(2) ob ob0
    by (auto simp: isWalkable_def Let_def t clearRefs_def assms(4) assms(5)
        split: option.splits if_splits)
qed

lemma frame_walkable:
  assumes I: "inv g" and T: "lastTime g \<le> fst f" and W: "isWalkable g x y"
  shows "isWalkable (frame f g) x y"
proof -
  define d where "d = frameDelta f g"
  define g1 where "g1 = g\<lparr>input := snd f, lastTime := fst f, chopCooldown := cooled d g\<rparr>"
  define g2 where "g2 = updatePlayer d g1"
  have fr: "frame f g = updateFallingTrees d g2"
    by (simp add: frame_unfold d_def g1_def g2_def)
  have I1: "inv g1" unfolding g1_def by (rule inv_fields[OF I]) simp_all
  have I2: "inv g2" unfolding g2_def by (rule inv_updatePlayer[OF I1])
  have W1: "isWalkable g1 x y"
    using W isWalkable_cong[of g1 g x y] by (simp add: g1_def)
  have h2: "dtype (heap g2 q) = dtype (heap g1 q) \<and> healthOr100 (heap g2 q) \<le> healthOr100 (heap g1 q)"
    for q
  proof (cases "chopTarget g1")
    case None
    then show ?thesis using updatePlayer_nochop(1)[OF None, of d] by (simp add: g2_def)
  next
    case (Some r)
    have "dtype (heap g1 r) = TreeDeco"
      using Some by (auto simp: chopTarget_def Let_def split: if_splits option.splits)
    then show ?thesis
      using updatePlayer_chop[OF Some, of d]
      by (auto simp: g2_def hitTree_fields split: if_splits)
  qed
  have W2: "isWalkable g2 x y"
    by (rule isWalkable_mono[OF W1]) (simp_all add: g2_def updatePlayer_fields h2[unfolded g2_def])
  note D2 = invD[OF I2]
  define R where "R = {q \<in> set (fallingTrees g2). fadedOut (d / 1000) (heap g2 q)}"
  note eq = updateFallingTrees_eq[OF D2(3) D2(2), of d, folded R_def]
  show ?thesis
    unfolding fr
  proof (rule isWalkable_clear[OF D2(1) W2, of _ R])
    show "world (updateFallingTrees d g2) = map (map (clearRefs R)) (world g2)"
      by (simp add: eq)
    show "dtype (heap (updateFallingTrees d g2) q) = dtype (heap g2 q)" for q
      using updateFallingTrees_keeps[of d g2 q] by simp
    show "healthOr100 (heap (updateFallingTrees d g2) q) = healthOr100 (heap g2 q)" for q
      using updateFallingTrees_keeps[of d g2 q] by (simp add: healthOr100_def)
  qed
qed

text \<open>
  C9: in a session, a tile for which \<open>isWalkable\<close> has returned true is walkable after
  every later frame: no frame changes a terrain, raises a health or puts a decoration on
  a tile.
\<close>

theorem walkable_stays:
  assumes "reachable g" and "forward (lastTime g) (map fst fs)" and "isWalkable g x y"
  shows "isWalkable (frames fs g) x y"
proof -
  have "inv g \<Longrightarrow> forward (lastTime g) (map fst fs) \<Longrightarrow> isWalkable g x y \<Longrightarrow>
        isWalkable (frames fs g) x y"
  proof (induction fs arbitrary: g)
    case Nil
    then show ?case by simp
  next
    case (Cons f fs)
    have le: "lastTime g \<le> fst f" and fw: "forward (fst f) (map fst fs)"
      using Cons.prems(2) by simp_all
    have "inv (frame f g)" by (rule inv_frame[OF Cons.prems(1) le])
    moreover have "isWalkable (frame f g) x y"
      by (rule frame_walkable[OF Cons.prems(1) le Cons.prems(3)])
    ultimately show ?case using Cons.IH[of "frame f g"] fw by simp
  qed
  then show ?thesis using assms reachable_inv by blast
qed

theorem walkable_stays_witness:
  "isWalkable demoGame 1 0 \<and> isWalkable (frames demoHold demoGame) 1 0"
proof -
  have "forward (lastTime demoGame) (map fst demoHold)"
    by (simp add: demo_fields steady_forward demoHold_facts)
  from walkable_stays[OF reachable_demoGame this demo_walkable_10] demo_walkable_10
  show ?thesis by simp
qed


subsection \<open>Falling, fading and removal\<close>

text \<open>What \<^verbatim>\<open>updatePlayer\<close> does to the list of falling trees and to the objects of trees
  that are down or on no tile.\<close>

lemma updatePlayer_falling:
  assumes "inv g"
  shows "set (fallingTrees g) \<subseteq> set (fallingTrees (updatePlayer d g))"
    and "set (fallingTrees (updatePlayer d g)) \<subseteq> set (fallingTrees g) \<union> set (decoRefs (world g))"
    and "healthOr100 (heap g r) \<le> 0 \<or> r \<notin> set (decoRefs (world g)) \<Longrightarrow>
           heap (updatePlayer d g) r = heap g r"
proof -
  note I = invD[OF assms]
  have "set (fallingTrees g) \<subseteq> set (fallingTrees (updatePlayer d g)) \<and>
        set (fallingTrees (updatePlayer d g)) \<subseteq> set (fallingTrees g) \<union> set (decoRefs (world g)) \<and>
        (healthOr100 (heap g r) \<le> 0 \<or> r \<notin> set (decoRefs (world g)) \<longrightarrow>
           heap (updatePlayer d g) r = heap g r)"
  proof (cases "chopTarget g")
    case None
    then show ?thesis using updatePlayer_nochop[OF None, where d = d] by simp
  next
    case (Some q)
    note T = chopTarget_Some[OF I(1) Some]
    show ?thesis
      using updatePlayer_chop[OF Some, where d = d] T(1) by (auto split: if_splits)
  qed
  then show "set (fallingTrees g) \<subseteq> set (fallingTrees (updatePlayer d g))"
    and "set (fallingTrees (updatePlayer d g)) \<subseteq> set (fallingTrees g) \<union> set (decoRefs (world g))"
    and "healthOr100 (heap g r) \<le> 0 \<or> r \<notin> set (decoRefs (world g)) \<Longrightarrow>
           heap (updatePlayer d g) r = heap g r"
    by blast+
qed

lemma frame_tree:
  assumes I: "inv g" and T: "lastTime g \<le> fst f"
  defines "dt \<equiv> frameDelta f g / 1000"
  shows "r \<in> set (fallingTrees g) \<Longrightarrow>
           heap (frame f g) r = stepTree dt (heap g r) \<and>
           (r \<in> set (fallingTrees (frame f g)) \<longleftrightarrow> \<not> fadedOut dt (heap g r)) \<and>
           (r \<in> set (decoRefs (world (frame f g))) \<longleftrightarrow> \<not> fadedOut dt (heap g r)) \<and>
           (r \<in> scene (frame f g) \<longleftrightarrow> r \<in> scene g \<and> \<not> fadedOut dt (heap g r))"
    and "r \<notin> set (fallingTrees g) \<Longrightarrow> r \<notin> set (decoRefs (world g)) \<Longrightarrow>
           heap (frame f g) r = heap g r \<and>
           r \<notin> set (fallingTrees (frame f g)) \<and>
           r \<notin> set (decoRefs (world (frame f g))) \<and>
           (r \<in> scene (frame f g) \<longleftrightarrow> r \<in> scene g)"
proof -
  define d where "d = frameDelta f g"
  define g1 where "g1 = g\<lparr>input := snd f, lastTime := fst f, chopCooldown := cooled d g\<rparr>"
  define g2 where "g2 = updatePlayer d g1"
  have fr: "frame f g = updateFallingTrees d g2"
    by (simp add: frame_unfold d_def g1_def g2_def)
  have dt: "dt = d / 1000" by (simp add: dt_def d_def)
  have I1: "inv g1" unfolding g1_def by (rule inv_fields[OF I]) simp_all
  have I2: "inv g2" unfolding g2_def by (rule inv_updatePlayer[OF I1])
  note D = invD[OF I] and D2 = invD[OF I2]
  note U = updatePlayer_falling[OF I1, where d = d, folded g2_def]
  have w2: "world g2 = world g" and s2: "scene g2 = scene g"
    by (simp_all add: g2_def updatePlayer_fields g1_def)
  have f1: "fallingTrees g1 = fallingTrees g" and h1: "heap g1 = heap g" and w1: "world g1 = world g"
    by (simp_all add: g1_def)
  define R where "R = {q \<in> set (fallingTrees g2). fadedOut (d / 1000) (heap g2 q)}"
  note eq = updateFallingTrees_eq[OF D2(3) D2(2), where d = d, folded R_def]
  have hp: "heap (frame f g) q =
      (if q \<in> set (fallingTrees g2) then stepTree (d / 1000) (heap g2 q) else heap g2 q)" for q
    by (simp add: fr eq)
  have fs: "set (fallingTrees (frame f g)) = set (fallingTrees g2) - R"
    by (auto simp: fr eq R_def)
  have dr: "set (decoRefs (world (frame f g))) = set (decoRefs (world g)) - R"
    by (auto simp: fr eq decoRefs_clearRefs w2)
  have sc: "scene (frame f g) = scene g - R"
    by (simp add: fr eq s2 R_def)
  show "heap (frame f g) r = stepTree dt (heap g r) \<and>
           (r \<in> set (fallingTrees (frame f g)) \<longleftrightarrow> \<not> fadedOut dt (heap g r)) \<and>
           (r \<in> set (decoRefs (world (frame f g))) \<longleftrightarrow> \<not> fadedOut dt (heap g r)) \<and>
           (r \<in> scene (frame f g) \<longleftrightarrow> r \<in> scene g \<and> \<not> fadedOut dt (heap g r))"
    if "r \<in> set (fallingTrees g)"
  proof -
    have r2: "r \<in> set (fallingTrees g2)" using that U(1) f1 by auto
    have "healthOr100 (heap g1 r) \<le> 0" using D(7)[OF that] by (simp add: h1)
    then have h2: "heap g2 r = heap g r" using U(3)[of r] by (simp add: h1)
    have rd: "r \<in> set (decoRefs (world g))" using that D(4) by auto
    have rR: "r \<in> R \<longleftrightarrow> fadedOut dt (heap g r)" by (simp add: R_def r2 h2 dt)
    show ?thesis
      using r2 rd rR by (simp add: hp h2 fs dr sc dt)
  qed
  show "heap (frame f g) r = heap g r \<and>
           r \<notin> set (fallingTrees (frame f g)) \<and>
           r \<notin> set (decoRefs (world (frame f g))) \<and>
           (r \<in> scene (frame f g) \<longleftrightarrow> r \<in> scene g)"
    if "r \<notin> set (fallingTrees g)" "r \<notin> set (decoRefs (world g))"
  proof -
    have r2: "r \<notin> set (fallingTrees g2)" using that U(2) f1 w1 by auto
    have h2: "heap g2 r = heap g r" using U(3)[of r] that(2) by (simp add: h1 w1)
    have rR: "r \<notin> R" using r2 by (simp add: R_def)
    show ?thesis
      using r2 rR that(2) by (simp add: hp h2 fs dr sc)
  qed
qed


subsection \<open>The sample session up to the fading tree\<close>

lemma fall_step:
  assumes I: "inv g" and R: "r \<in> set (fallingTrees g)" and P: "fallPhase k (heap g r)"
    and T: "fst f = lastTime g + 50" and K: "k < 16"
  shows "r \<in> set (fallingTrees (frame f g)) \<and> fallPhase (Suc k) (heap (frame f g) r)"
proof -
  have le: "lastTime g \<le> fst f" using T by simp
  have d: "frameDelta f g / 1000 = 1 / 20" using T by (simp add: frameDelta_def)
  note F = frame_tree(1)[OF I le R, unfolded d]
  from P show ?thesis unfolding fallPhase_def
  proof (elim disjE conjE exE)
    assume S: "state (heap g r) = Some Falling"
      and A: "fallAngle (heap g r) = Some (0.125 * (real k + 1))"
      and O: "opacity (heap g r) = Some 1"
    have nf: "\<not> fadedOut (1 / 20) (heap g r)" using S by (simp add: fadedOut_def)
    show "r \<in> set (fallingTrees (frame f g)) \<and>
      (state (heap (frame f g) r) = Some Falling \<and>
       fallAngle (heap (frame f g) r) = Some (0.125 * (real (Suc k) + 1)) \<and>
       opacity (heap (frame f g) r) = Some 1 \<or>
       state (heap (frame f g) r) = Some Fading \<and> 7 \<le> Suc k \<and>
       (\<exists>v. opacity (heap (frame f g) r) = Some v \<and> 1 - 0.1 * (real (Suc k) - 7) \<le> v))"
    proof (cases "0.125 * (real k + 1) + 1 / 20 * 2.5 \<ge> pi / 2")
      case True
      then have "1 \<le> 0.125 * (real k + 1) + 1 / 20 * 2.5" using pi_ge_two by linarith
      then have k6: "6 \<le> k" by (simp add: field_simps)
      then have "1 - 0.1 * (real (Suc k) - 7) \<le> 1" by simp
      with True k6 show ?thesis
        using F nf S A O by (simp add: stepTree_def)
    next
      case False
      then have "(0.125 * (real k + 1) + 1 / 20 * 2.5 :: real) = 0.125 * (real (Suc k) + 1)"
        by (simp add: field_simps)
      with False show ?thesis
        using F nf S A O by (simp add: stepTree_def)
    qed
  next
    fix v
    assume S: "state (heap g r) = Some Fading" and k7: "7 \<le> k"
      and O: "opacity (heap g r) = Some v" and V: "1 - 0.1 * (real k - 7) \<le> v"
    have "real k < 16" using K by simp
    then have pos: "0 < v - 1 / 20 * 2" using V by (simp add: field_simps)
    then have nf: "\<not> fadedOut (1 / 20) (heap g r)" using S O by (simp add: fadedOut_def)
    have "1 - 0.1 * (real (Suc k) - 7) \<le> v - 1 / 20 * 2" using V by (simp add: field_simps)
    then show "r \<in> set (fallingTrees (frame f g)) \<and>
      (state (heap (frame f g) r) = Some Falling \<and>
       fallAngle (heap (frame f g) r) = Some (0.125 * (real (Suc k) + 1)) \<and>
       opacity (heap (frame f g) r) = Some 1 \<or>
       state (heap (frame f g) r) = Some Fading \<and> 7 \<le> Suc k \<and>
       (\<exists>v. opacity (heap (frame f g) r) = Some v \<and> 1 - 0.1 * (real (Suc k) - 7) \<le> v))"
      using F nf S O k7 by (simp add: stepTree_def)
  qed
qed

lemma frames_append: "frames (xs @ ys) g = frames ys (frames xs g)"
  by (induction xs arbitrary: g) simp_all

lemma paced_forward: "paced t ts \<Longrightarrow> forward t ts"
  by (induction ts arbitrary: t) auto

lemma fall_run:
  assumes "inv g" and "r \<in> set (fallingTrees g)" and "fallPhase k (heap g r)"
    and "paced (lastTime g) (map fst fs)" and "k + length fs \<le> 16"
  shows "r \<in> set (fallingTrees (frames fs g)) \<and> fallPhase (k + length fs) (heap (frames fs g) r)"
  using assms
proof (induction fs arbitrary: g k)
  case Nil
  then show ?case by simp
next
  case (Cons f fs)
  have T: "fst f = lastTime g + 50" and P: "paced (lastTime g + 50) (map fst fs)"
    using Cons.prems(4) by auto
  have K: "k < 16" using Cons.prems(5) by simp
  note S = fall_step[OF Cons.prems(1,2,3) T K]
  have I': "inv (frame f g)" by (rule inv_frame[OF Cons.prems(1)]) (simp add: T)
  have P': "paced (lastTime (frame f g)) (map fst fs)" using P by (simp add: frame_lastTime T)
  have "r \<in> set (fallingTrees (frames fs (frame f g))) \<and>
        fallPhase (Suc k + length fs) (heap (frames fs (frame f g)) r)"
    by (rule Cons.IH[OF I' _ _ P']) (use S Cons.prems(5) in simp_all)
  then show ?case by simp
qed

lemma upt_8_13: "[8..<13] = [8,9,10,11,12::nat]"
  by (simp add: upt_rec)

lemma upt_14_30:
  "[14..<30] = [14,15,16,17,18,19,20,21,22,23,24,25,26,27,28,29::nat]"
  by (simp add: upt_rec)

lemma demoWait2_facts:
  "\<forall>f \<in> set demoWait2. snd f = demoRight"
  "steady 350 (map fst demoWait2)"
  "last (350 # map fst demoWait2) = 600"
  by (simp_all add: demoWait2_def upt_8_13)

lemma demoFall_facts:
  "paced 650 (map fst demoFall)"
  "length demoFall = 16"
  "last (650 # map fst demoFall) = 1450"
  by (simp_all add: demoFall_def upt_14_30)

lemma demo_decoRefs: "decoRefs (world demoGame) = [0]"
proof -
  have "nextRef (emptyEnv demoRnd) = 0" by (simp add: emptyEnv_def)
  then show ?thesis
    using generateWorld_gen(1)[where e = "emptyEnv demoRnd"]
    by (simp add: gen_demo genStep_def)
qed

lemma demo_falling:
  "reachable demoFalling" "lastTime demoFalling = 650" "0 \<in> set (fallingTrees demoFalling)"
  "state (heap demoFalling 0) = Some Falling" "fallAngle (heap demoFalling 0) = Some 0.125"
  "opacity (heap demoFalling 0) = Some 1"
proof -
  define g1 where "g1 = frame (50, demoRight) demoGame"
  define g2 where "g2 = frames demoWait g1"
  define g3 where "g3 = frame (350, demoRight) g2"
  define g4 where "g4 = frames demoWait2 g3"
  have g5: "demoFalling = frame (650, demoRight) g4"
    by (simp add: demoFalling_def g1_def g2_def g3_def g4_def)
  note I = reachable_inv[OF reachable_demoGame]
  have le: "lastTime demoGame \<le> 50" by (simp add: demo_fields)
  have H: "0 < healthOr100 (heap demoGame 0)" by (simp add: demo_fields)
  note B = blocked_frame[OF I demo_facing H le, folded g1_def]
  have c: "cooled (frameDelta (50, demoRight) demoGame) demoGame \<le> 0"
    by (simp add: cooled_def demo_fields)
  have h1: "health (heap g1 0) = Some 66" and c1: "chopCooldown g1 = 300"
    using B(2)[OF c] by (simp_all add: demo_fields)
  have l1: "lastTime g1 = 50" by (simp add: g1_def)
  have I1: "inv g1" unfolding g1_def by (rule inv_frame[OF I]) (simp add: demo_fields)
  have H1: "0 < healthOr100 (heap g1 0)" using h1 by (simp add: healthOr100_def)
  have l2: "lastTime g2 = 300"
    by (simp only: g2_def frames_lastTime l1 demoWait_facts(3))
  have W: "inv g2 \<and> facingTree g2 demoRight 0 \<and> health (heap g2 0) = health (heap g1 0) \<and>
         chopCooldown g2 = chopCooldown g1 - (lastTime g2 - lastTime g1)"
    unfolding g2_def
    by (rule wait_frames[OF I1 B(1) H1 demoWait_facts(1)])
       (simp_all add: l1 demoWait_facts(2) c1 l2[unfolded g2_def])
  then have h2: "health (heap g2 0) = Some 66" and c2: "chopCooldown g2 = 50"
    using h1 c1 l1 l2 by simp_all
  have hv2: "healthOr100 (heap g2 0) = 66" by (simp add: h2 healthOr100_def)
  have H2: "0 < healthOr100 (heap g2 0)" by (simp add: hv2)
  have le2: "lastTime g2 \<le> 350" using l2 by simp
  have c3: "cooled (frameDelta (350, demoRight) g2) g2 \<le> 0"
    by (simp add: cooled_def frameDelta_def c2 l2)
  have I2: "inv g2" and F2: "facingTree g2 demoRight 0" using W by simp_all
  note B2 = blocked_frame[OF I2 F2 H2 le2, folded g3_def]
  have h3: "health (heap g3 0) = Some 32" and c3': "chopCooldown g3 = 300"
    using B2(2)[OF c3] by (simp_all add: hv2)
  have l3: "lastTime g3 = 350" by (simp add: g3_def)
  have I3: "inv g3" unfolding g3_def by (rule inv_frame[OF I2]) (simp add: l2)
  have hv3: "healthOr100 (heap g3 0) = 32" by (simp add: h3 healthOr100_def)
  have H3: "0 < healthOr100 (heap g3 0)" by (simp add: hv3)
  have l4: "lastTime g4 = 600"
    by (simp only: g4_def frames_lastTime l3 demoWait2_facts(3))
  have W4: "inv g4 \<and> facingTree g4 demoRight 0 \<and> health (heap g4 0) = health (heap g3 0) \<and>
         chopCooldown g4 = chopCooldown g3 - (lastTime g4 - lastTime g3)"
    unfolding g4_def
    by (rule wait_frames[OF I3 B2(1) H3 demoWait2_facts(1)])
       (simp_all add: l3 demoWait2_facts(2) c3' l4[unfolded g4_def])
  then have h4: "health (heap g4 0) = Some 32" and c4: "chopCooldown g4 = 50"
    using h3 c3' l3 l4 by simp_all
  have hv4: "healthOr100 (heap g4 0) = 32" by (simp add: h4 healthOr100_def)
  have H4: "0 < healthOr100 (heap g4 0)" by (simp add: hv4)
  have le4: "lastTime g4 \<le> 650" using l4 by simp
  have c5: "cooled (frameDelta (650, demoRight) g4) g4 \<le> 0"
    by (simp add: cooled_def frameDelta_def c4 l4)
  have I4: "inv g4" and F4: "facingTree g4 demoRight 0" using W4 by simp_all
  have h34: "healthOr100 (heap g4 0) \<le> 34" by (simp add: hv4)
  have d5: "frameDelta (650, demoRight) g4 / 1000 = 1 / 20" by (simp add: frameDelta_def l4)
  from blocked_frame(5)[OF I4 F4 H4 le4 c5 h34, folded g5, unfolded d5]
  obtain dir where r5: "0 \<in> set (fallingTrees demoFalling)"
    and e5: "heap demoFalling 0 = stepTree (1 / 20) (hitTree dir (heap g4 0))"
    by blast
  have fw: "forward (lastTime demoGame)
      (map fst ((50, demoRight) # demoWait @ (350, demoRight) # demoWait2 @ [(650, demoRight)]))"
    by (simp add: demo_fields demoWait_def demoWait2_def upt_2_7 upt_8_13)
  have "reachable (frames ((50, demoRight) # demoWait @ (350, demoRight) # demoWait2 @
          [(650, demoRight)]) demoGame)"
    by (rule reachable_frames[OF reachable_demoGame fw])
  then show "reachable demoFalling"
    by (simp add: demoFalling_def frames_append)
  show "lastTime demoFalling = 650" by (simp add: g5)
  show "0 \<in> set (fallingTrees demoFalling)" by (rule r5)
  have small: "\<not> pi / 2 \<le> 1 / 8" using pi_ge_two by linarith
  show "state (heap demoFalling 0) = Some Falling"
    and "fallAngle (heap demoFalling 0) = Some 0.125"
    and "opacity (heap demoFalling 0) = Some 1"
    using small by (simp_all add: e5 stepTree_def hitTree_def hv4)
qed

lemma demo_fading:
  "reachable demoFading" "lastTime demoFading = 1450" "0 \<in> set (fallingTrees demoFading)"
  "state (heap demoFading 0) = Some Fading"
proof -
  note F = demo_falling
  have I: "inv demoFalling" by (rule reachable_inv[OF F(1)])
  have P0: "fallPhase 0 (heap demoFalling 0)" by (simp add: fallPhase_def F)
  have pc: "paced (lastTime demoFalling) (map fst demoFall)" by (simp add: F(2) demoFall_facts(1))
  have "0 \<in> set (fallingTrees (frames demoFall demoFalling)) \<and>
        fallPhase (0 + length demoFall) (heap (frames demoFall demoFalling) 0)"
    by (rule fall_run[OF I F(3) P0 pc]) (simp add: demoFall_facts(2))
  then have R: "0 \<in> set (fallingTrees demoFading)" and P: "fallPhase 16 (heap demoFading 0)"
    by (simp_all add: demoFading_def demoFall_facts(2))
  show "reachable demoFading" unfolding demoFading_def
    by (rule reachable_frames[OF F(1)]) (simp add: paced_forward[OF pc])
  then have I': "inv demoFading" by (rule reachable_inv)
  show "lastTime demoFading = 1450"
    by (simp only: demoFading_def frames_lastTime F(2) demoFall_facts(3))
  show "0 \<in> set (fallingTrees demoFading)" by (rule R)
  have ok: "treeOk (heap demoFading 0)" using invD(5)[OF I' invD(6)[OF I' R]] .
  have "\<exists>a. fallAngle (heap demoFading 0) = Some a \<and> a \<le> pi / 2"
    using ok invD(7)[OF I' R] by (auto simp: treeOk_def)
  then have "fallAngle (heap demoFading 0) \<noteq> Some (0.125 * (real 16 + 1))"
    using pi_half_less_two by auto
  then show "state (heap demoFading 0) = Some Fading"
    using P by (auto simp: fallPhase_def)
qed
text \<open>
  C4: in a session, a falling tree's fall angle never decreases from frame to frame and
  never exceeds \<open>\<pi>/2\<close>; in the frame that would take it to \<open>\<pi>/2\<close> or beyond it is set to
  \<open>\<pi>/2\<close> and the state becomes fading. A fading tree's opacity never increases; in the
  first frame that brings it to 0 or below the tree leaves the list of falling trees,
  the scene and its tile, and until then it stays in all three. A tree that is in
  neither the list nor a tile stays so and is not changed any more. In \<^verbatim>\<open>tree.ts\<close> the
  same steps hold for \<^verbatim>\<open>Tree.update\<close>, which takes the mesh off the scene and marks the
  tree destroyed, for good.
\<close>

theorem fall_fade_remove:
  "(reachable g \<and> lastTime g \<le> fst f \<and> r \<in> set (fallingTrees g) \<and>
    state (heap g r) = Some Falling \<longrightarrow>
      (\<exists>a a'. fallAngle (heap g r) = Some a \<and> fallAngle (heap (frame f g) r) = Some a' \<and>
         a \<le> a' \<and> a' \<le> pi / 2 \<and>
         (if a + frameDelta f g / 1000 * 2.5 \<ge> pi / 2
          then a' = pi / 2 \<and> state (heap (frame f g) r) = Some Fading
          else a' = a + frameDelta f g / 1000 * 2.5 \<and>
               state (heap (frame f g) r) = Some Falling)) \<and>
      r \<in> set (fallingTrees (frame f g)) \<and> r \<in> set (decoRefs (world (frame f g))))
   \<and> (reachable g \<and> lastTime g \<le> fst f \<and> r \<in> set (fallingTrees g) \<and>
      state (heap g r) = Some Fading \<longrightarrow>
      (\<exists>v. opacity (heap g r) = Some v \<and>
         opacity (heap (frame f g) r) = Some (v - frameDelta f g / 1000 * 2) \<and>
         v - frameDelta f g / 1000 * 2 \<le> v \<and>
         state (heap (frame f g) r) = Some Fading \<and>
         (if v - frameDelta f g / 1000 * 2 \<le> 0
          then r \<notin> set (fallingTrees (frame f g)) \<and> r \<notin> scene (frame f g) \<and>
               r \<notin> set (decoRefs (world (frame f g)))
          else r \<in> set (fallingTrees (frame f g)) \<and> (r \<in> scene (frame f g) \<longleftrightarrow> r \<in> scene g) \<and>
               r \<in> set (decoRefs (world (frame f g))))))
   \<and> (reachable g \<and> lastTime g \<le> fst f \<and> r \<notin> set (fallingTrees g) \<and>
      r \<notin> set (decoRefs (world g)) \<longrightarrow>
        r \<notin> set (fallingTrees (frame f g)) \<and> r \<notin> set (decoRefs (world (frame f g))) \<and>
        heap (frame f g) r = heap g r \<and> (r \<in> scene (frame f g) \<longleftrightarrow> r \<in> scene g))
   \<and> (0 \<le> dt \<and> tree_state t = Falling \<and> tree_fallAngle t \<le> pi / 2 \<longrightarrow>
        tree_fallAngle t \<le> tree_fallAngle (tree_update dt t) \<and>
        tree_fallAngle (tree_update dt t) \<le> pi / 2 \<and>
        (if tree_fallAngle t + dt / 1000 * 2.5 \<ge> pi / 2
         then tree_fallAngle (tree_update dt t) = pi / 2 \<and> tree_state (tree_update dt t) = Fading
         else tree_state (tree_update dt t) = Falling))
   \<and> (0 \<le> dt \<and> tree_state t = Fading \<longrightarrow>
        tree_opacity (tree_update dt t) = tree_opacity t - dt / 1000 * 2 \<and>
        tree_opacity (tree_update dt t) \<le> tree_opacity t \<and>
        tree_state (tree_update dt t) = Fading \<and>
        (if tree_opacity t - dt / 1000 * 2 \<le> 0
         then isDestroyed (tree_update dt t) \<and> \<not> treeMeshInScene (tree_update dt t)
         else isDestroyed (tree_update dt t) = isDestroyed t \<and>
              treeMeshInScene (tree_update dt t) = treeMeshInScene t))
   \<and> (isDestroyed t \<longrightarrow> isDestroyed (tree_update dt t))"
proof (intro conjI impI)
  assume A: "reachable g \<and> lastTime g \<le> fst f \<and> r \<in> set (fallingTrees g) \<and>
    state (heap g r) = Some Falling"
  then have I: "inv g" and T: "lastTime g \<le> fst f" and R: "r \<in> set (fallingTrees g)"
    and S: "state (heap g r) = Some Falling"
    by (simp_all add: reachable_inv)
  note D = invD[OF I]
  have d0: "0 \<le> frameDelta f g / 1000 * 2.5" using frameDelta_bounds(1)[OF T] by simp
  have ok: "treeOk (heap g r)" using D(5)[OF D(6)[OF R]] .
  then obtain a where a: "fallAngle (heap g r) = Some a" "0 \<le> a" "a \<le> pi / 2"
    using D(7)[OF R] by (auto simp: treeOk_def)
  note F = frame_tree(1)[OF I T R]
  have nf: "\<not> fadedOut (frameDelta f g / 1000) (heap g r)" using S by (simp add: fadedOut_def)
  show "r \<in> set (fallingTrees (frame f g))" and "r \<in> set (decoRefs (world (frame f g)))"
    using F nf by simp_all
  show "\<exists>a a'. fallAngle (heap g r) = Some a \<and> fallAngle (heap (frame f g) r) = Some a' \<and>
         a \<le> a' \<and> a' \<le> pi / 2 \<and>
         (if a + frameDelta f g / 1000 * 2.5 \<ge> pi / 2
          then a' = pi / 2 \<and> state (heap (frame f g) r) = Some Fading
          else a' = a + frameDelta f g / 1000 * 2.5 \<and>
               state (heap (frame f g) r) = Some Falling)"
  proof (cases "a + frameDelta f g / 1000 * 2.5 \<ge> pi / 2")
    case True
    then show ?thesis
      using F S a by (intro exI[of _ a] exI[of _ "pi / 2"]) (simp add: stepTree_def)
  next
    case False
    then show ?thesis
      using F S a d0
      by (intro exI[of _ a] exI[of _ "a + frameDelta f g / 1000 * 2.5"]) (simp add: stepTree_def)
  qed
next
  assume A: "reachable g \<and> lastTime g \<le> fst f \<and> r \<in> set (fallingTrees g) \<and>
      state (heap g r) = Some Fading"
  then have I: "inv g" and T: "lastTime g \<le> fst f" and R: "r \<in> set (fallingTrees g)"
    and S: "state (heap g r) = Some Fading"
    by (simp_all add: reachable_inv)
  note D = invD[OF I]
  have d0: "0 \<le> frameDelta f g / 1000 * 2" using frameDelta_bounds(1)[OF T] by simp
  have ok: "treeOk (heap g r)" using D(5)[OF D(6)[OF R]] .
  then obtain v where v: "opacity (heap g r) = Some v"
    using D(7)[OF R] by (auto simp: treeOk_def)
  note F = frame_tree(1)[OF I T R]
  have fo: "fadedOut (frameDelta f g / 1000) (heap g r) \<longleftrightarrow> v - frameDelta f g / 1000 * 2 \<le> 0"
    using S v by (simp add: fadedOut_def)
  show "\<exists>v. opacity (heap g r) = Some v \<and>
         opacity (heap (frame f g) r) = Some (v - frameDelta f g / 1000 * 2) \<and>
         v - frameDelta f g / 1000 * 2 \<le> v \<and>
         state (heap (frame f g) r) = Some Fading \<and>
         (if v - frameDelta f g / 1000 * 2 \<le> 0
          then r \<notin> set (fallingTrees (frame f g)) \<and> r \<notin> scene (frame f g) \<and>
               r \<notin> set (decoRefs (world (frame f g)))
          else r \<in> set (fallingTrees (frame f g)) \<and> (r \<in> scene (frame f g) \<longleftrightarrow> r \<in> scene g) \<and>
               r \<in> set (decoRefs (world (frame f g))))"
    using F S v d0 fo by (intro exI[of _ v]) (simp add: stepTree_def)
next
  assume A: "reachable g \<and> lastTime g \<le> fst f \<and> r \<notin> set (fallingTrees g) \<and>
      r \<notin> set (decoRefs (world g))"
  then have I: "inv g" and T: "lastTime g \<le> fst f" by (simp_all add: reachable_inv)
  from frame_tree(2)[OF I T] A
  show "r \<notin> set (fallingTrees (frame f g))" and "r \<notin> set (decoRefs (world (frame f g)))"
    and "heap (frame f g) r = heap g r" and "r \<in> scene (frame f g) \<longleftrightarrow> r \<in> scene g"
    by simp_all
next
  assume A: "0 \<le> dt \<and> tree_state t = Falling \<and> tree_fallAngle t \<le> pi / 2"
  then have "0 \<le> dt / 1000 * 2.5" by simp
  with A show "tree_fallAngle t \<le> tree_fallAngle (tree_update dt t)"
    and "tree_fallAngle (tree_update dt t) \<le> pi / 2"
    and "if tree_fallAngle t + dt / 1000 * 2.5 \<ge> pi / 2
         then tree_fallAngle (tree_update dt t) = pi / 2 \<and> tree_state (tree_update dt t) = Fading
         else tree_state (tree_update dt t) = Falling"
    by (simp_all add: tree_update_def Let_def)
next
  assume A: "0 \<le> dt \<and> tree_state t = Fading"
  then have "0 \<le> dt / 1000 * 2" by simp
  with A show "tree_opacity (tree_update dt t) = tree_opacity t - dt / 1000 * 2"
    and "tree_opacity (tree_update dt t) \<le> tree_opacity t"
    and "tree_state (tree_update dt t) = Fading"
    and "if tree_opacity t - dt / 1000 * 2 \<le> 0
         then isDestroyed (tree_update dt t) \<and> \<not> treeMeshInScene (tree_update dt t)
         else isDestroyed (tree_update dt t) = isDestroyed t \<and>
              treeMeshInScene (tree_update dt t) = treeMeshInScene t"
    by (simp_all add: tree_update_def Let_def)
next
  assume "isDestroyed t"
  then show "isDestroyed (tree_update dt t)" by (simp add: tree_update_def Let_def)
qed


theorem fall_fade_remove_witness:
  "state (heap demoFalling 0) = Some Falling \<and> fallAngle (heap demoFalling 0) = Some 0.125 \<and>
   state (heap (frame (700, demoRight) demoFalling) 0) = Some Falling \<and>
   fallAngle (heap (frame (700, demoRight) demoFalling) 0) = Some 0.25 \<and>
   0 \<in> set (fallingTrees (frame (700, demoRight) demoFalling)) \<and>
   state (heap demoFading 0) = Some Fading \<and> 0 \<in> set (fallingTrees demoFading) \<and>
   (\<exists>v. opacity (heap demoFading 0) = Some v \<and>
        opacity (heap (frame (1500, demoRight) demoFading) 0) = Some (v - 0.1)) \<and>
   state (heap (frame (1500, demoRight) demoFading) 0) = Some Fading \<and>
   7 \<notin> set (decoRefs (world demoGame)) \<and> 7 \<notin> set (fallingTrees demoGame) \<and>
   7 \<notin> set (decoRefs (world (frame (50, demoRight) demoGame))) \<and>
   7 \<notin> set (fallingTrees (frame (50, demoRight) demoGame)) \<and>
   tree_state (tree_update 50 (damage 0 (Num 1, Num 0, Num 0)
      ((createTree 1 1 0 0)\<lparr>tree_health := 32\<rparr>))) = Falling \<and>
   isDestroyed (tree_update 50 ((createTree 1 1 0 0)\<lparr>tree_state := Fading,
      tree_opacity := 0.05\<rparr>)) \<and>
   \<not> treeMeshInScene (tree_update 50 ((createTree 1 1 0 0)\<lparr>tree_state := Fading,
      tree_opacity := 0.05\<rparr>))"
proof -
  note A = demo_falling and B = demo_fading
  define t1 where "t1 = damage 0 (Num 1, Num 0, Num 0) ((createTree 1 1 0 0)\<lparr>tree_health := 32\<rparr>)"
  define t2 where "t2 = (createTree 1 1 0 0)\<lparr>tree_state := Fading, tree_opacity := 0.05\<rparr>"
  have t1: "0 \<le> (50::real) \<and> tree_state t1 = Falling \<and> tree_fallAngle t1 \<le> pi / 2"
    by (simp add: t1_def damage_def createTree_def Let_def)
  have a1: "tree_fallAngle t1 = 0"
    by (simp add: t1_def damage_def createTree_def Let_def)
  have t2: "0 \<le> (50::real) \<and> tree_state t2 = Fading" by (simp add: t2_def)
  have o2: "tree_opacity t2 - 50 / 1000 * 2 \<le> 0" by (simp add: t2_def)
  have g0: "reachable demoGame \<and> lastTime demoGame \<le> fst (50::real, demoRight) \<and>
    7 \<notin> set (fallingTrees demoGame) \<and> 7 \<notin> set (decoRefs (world demoGame))"
    using reachable_demoGame invD(4)[OF reachable_inv[OF reachable_demoGame]]
    by (auto simp: demo_fields demo_decoRefs)
  have gA: "reachable demoFalling \<and> lastTime demoFalling \<le> fst (700::real, demoRight) \<and>
    0 \<in> set (fallingTrees demoFalling) \<and> state (heap demoFalling 0) = Some Falling"
    using A by simp
  have gB: "reachable demoFading \<and> lastTime demoFading \<le> fst (1500::real, demoRight) \<and>
    0 \<in> set (fallingTrees demoFading) \<and> state (heap demoFading 0) = Some Fading"
    using B by simp
  have d1: "frameDelta (700, demoRight) demoFalling / 1000 * 2.5 = 1 / 8"
    and d2: "frameDelta (1500, demoRight) demoFading / 1000 * 2 = 1 / 10"
    by (simp_all add: frameDelta_def A(2) B(2))
  have small: "\<not> pi / 2 \<le> 1 / 8 + 1 / 8" "\<not> pi / 2 \<le> 0 + 50 / 1000 * 2.5"
    using pi_ge_two by auto
  note T1 = fall_fade_remove[of demoFalling "(700, demoRight)" 0 50 t1]
  note T2 = fall_fade_remove[of demoFading "(1500, demoRight)" 0 50 t2]
  note T3 = fall_fade_remove[of demoGame "(50, demoRight)" 7 50 t2]
  from T1[THEN conjunct1, THEN mp, OF gA]
  obtain a a' where a: "fallAngle (heap demoFalling 0) = Some a"
    and a': "fallAngle (heap (frame (700, demoRight) demoFalling) 0) = Some a'"
    and c: "if a + frameDelta (700, demoRight) demoFalling / 1000 * 2.5 \<ge> pi / 2
          then a' = pi / 2 \<and> state (heap (frame (700, demoRight) demoFalling) 0) = Some Fading
          else a' = a + frameDelta (700, demoRight) demoFalling / 1000 * 2.5 \<and>
               state (heap (frame (700, demoRight) demoFalling) 0) = Some Falling"
    and r1: "0 \<in> set (fallingTrees (frame (700, demoRight) demoFalling))"
    by blast
  have aeq: "a = 1 / 8" using a A(5) by simp
  note c' = c[unfolded aeq d1 if_not_P[OF small(1)]]
  have 1: "state (heap (frame (700, demoRight) demoFalling) 0) = Some Falling \<and>
     fallAngle (heap (frame (700, demoRight) demoFalling) 0) = Some 0.25"
    using c' by (simp add: a')
  from T2[THEN conjunct2, THEN conjunct1, THEN mp, OF gB]
  obtain v where v: "opacity (heap demoFading 0) = Some v"
    and v': "opacity (heap (frame (1500, demoRight) demoFading) 0) =
             Some (v - frameDelta (1500, demoRight) demoFading / 1000 * 2)"
    and s2: "state (heap (frame (1500, demoRight) demoFading) 0) = Some Fading"
    by blast
  have 2: "\<exists>v. opacity (heap demoFading 0) = Some v \<and>
        opacity (heap (frame (1500, demoRight) demoFading) 0) = Some (v - 0.1)"
    using v v'[unfolded d2] by simp
  from T3[THEN conjunct2, THEN conjunct2, THEN conjunct1, THEN mp, OF g0]
  have 3: "7 \<notin> set (decoRefs (world (frame (50, demoRight) demoGame))) \<and>
     7 \<notin> set (fallingTrees (frame (50, demoRight) demoGame))"
    by simp
  from T1[THEN conjunct2, THEN conjunct2, THEN conjunct2, THEN conjunct1, THEN mp, OF t1]
  have 4: "tree_state (tree_update 50 t1) = Falling"
    using small(2) by (simp add: a1)
  from T2[THEN conjunct2, THEN conjunct2, THEN conjunct2, THEN conjunct2, THEN conjunct1,
      THEN mp, OF t2]
  have 5: "isDestroyed (tree_update 50 t2) \<and> \<not> treeMeshInScene (tree_update 50 t2)"
    using o2 by simp
  show ?thesis
    using 1 2 3 4 5 r1 s2 A(4,5) B(3,4) g0 unfolding t1_def t2_def by simp
qed


subsection \<open>The spawn position\<close>

lemma validPositions_set:
  "set (validPositions w h) =
     {(x, y). x < WORLD_SIZE \<and> y < WORLD_SIZE \<and> spawnCandidate h (w ! x ! y)}"
  by (auto simp: validPositions_def)

lemma floor_index:
  assumes "0 \<le> u" and "u < 1" and "0 < n"
  shows "nat \<lfloor>u * real n\<rfloor> < n"
proof -
  have "u * real n < real n" using assms by simp
  then have "\<lfloor>u * real n\<rfloor> < int n" by (simp add: floor_less_iff)
  then show ?thesis using assms(3) by linarith
qed

lemma getSpawnPosition_valid:
  assumes "validPositions w (heap e) \<noteq> []" and "0 \<le> rnd e (rpos e)" and "rnd e (rpos e) < 1"
  shows "fst (getSpawnPosition w e) \<in> set (validPositions w (heap e))"
proof -
  have "nat \<lfloor>rnd e (rpos e) * real (length (validPositions w (heap e)))\<rfloor>
          < length (validPositions w (heap e))"
    by (rule floor_index[OF assms(2,3)]) (use assms(1) in simp)
  then show ?thesis
    using assms(1) by (simp add: getSpawnPosition_def Let_def random_def)
qed

lemma candidate_walkable:
  assumes "wf_world (world g)" and "x < WORLD_SIZE" and "y < WORLD_SIZE"
    and "spawnCandidate (heap g) (world g ! x ! y)"
  shows "isWalkable g (real x) (real y)"
proof -
  have "inGrid (int x) (int y)" using assms(2,3) by (simp add: inGrid_def)
  then show ?thesis
    using assms(4)
    by (simp add: isWalkable_def Let_def wf_world_bounds[OF assms(1)] spawnCandidate_def
        split: option.splits)
qed

lemma corner_center:
  "\<not> distFromCenter 0 0 < 3" "distFromEdge 0 0 = 0"
  "distFromCenter (WORLD_SIZE div 2) (WORLD_SIZE div 2) < 3"
  by (simp_all add: distFromCenter_def distFromEdge_def WORLD_SIZE_def sqrt_less_3)

text \<open>
  C5: for every stream of random draws from \<open>[0, 1)\<close>, the world that \<^verbatim>\<open>init\<close> generates
  has a spawn candidate (the corner tile \<open>(0, 0)\<close> is one), so \<^verbatim>\<open>getSpawnPosition\<close>
  returns one of its candidates and never the grid-centre fallback (the centre tile is
  water). The player is created on that tile; it is in the grid, it is walkable, it is
  not water, and its decoration is absent or a flower: no rock and no tree of any
  health.
\<close>

theorem spawn_valid:
  assumes "\<forall>n. 0 \<le> rs n \<and> rs n < 1"
  shows "validPositions (world (init rs t0)) (heap (init rs t0)) \<noteq> [] \<and>
         spawnOf rs \<in> set (validPositions (world (init rs t0)) (heap (init rs t0))) \<and>
         spawnOf rs \<noteq> (WORLD_SIZE div 2, WORLD_SIZE div 2) \<and>
         player (init rs t0) = createPlayer (fst (spawnOf rs)) (snd (spawnOf rs)) \<and>
         fst (spawnOf rs) < WORLD_SIZE \<and> snd (spawnOf rs) < WORLD_SIZE \<and>
         isWalkable (init rs t0) (p_x (player (init rs t0))) (p_y (player (init rs t0))) \<and>
         ttype (world (init rs t0) ! fst (spawnOf rs) ! snd (spawnOf rs)) \<noteq> Water \<and>
         (case decoration (world (init rs t0) ! fst (spawnOf rs) ! snd (spawnOf rs)) of
            None \<Rightarrow> True
          | Some r \<Rightarrow> dtype (heap (init rs t0) r) = FlowerDeco)"
proof -
  define w where "w = fst (generateWorld (emptyEnv rs))"
  define e where "e = snd (generateWorld (emptyEnv rs))"
  define g where "g = init rs t0"
  have wg: "world g = w" and hg: "heap g = heap e"
    and pg: "player g = createPlayer (fst (spawnOf rs)) (snd (spawnOf rs))"
    by (simp_all add: g_def init_fields w_def e_def spawnOf_def)
  have sp: "spawnOf rs = fst (getSpawnPosition w e)" by (simp add: spawnOf_def w_def e_def)
  note G = generateWorld_gen[where e = "emptyEnv rs", folded w_def e_def]
  have wf: "wf_world (world g)" using G(2) by (simp add: wg)
  have rn: "rnd e = rs" using G(1) by (simp add: genStep_def emptyEnv_def)
  have t00: "tileGen 0 0 (w ! 0 ! 0)" by (rule G(3)) (simp_all add: WORLD_SIZE_def)
  have c00: "spawnCandidate (heap e) (w ! 0 ! 0)"
    using t00 corner_center(1,2) by (auto simp: tileGen_def spawnCandidate_def)
  then have "(0, 0) \<in> set (validPositions w (heap e))"
    by (simp add: validPositions_set WORLD_SIZE_def)
  then have ne: "validPositions w (heap e) \<noteq> []" by auto
  have mem: "spawnOf rs \<in> set (validPositions w (heap e))"
    unfolding sp by (rule getSpawnPosition_valid[OF ne]) (use assms rn in simp_all)
  then have xs: "fst (spawnOf rs) < WORLD_SIZE" and ys: "snd (spawnOf rs) < WORLD_SIZE"
    and cd: "spawnCandidate (heap e) (w ! fst (spawnOf rs) ! snd (spawnOf rs))"
    by (auto simp: validPositions_set)
  have tc: "tileGen (WORLD_SIZE div 2) (WORLD_SIZE div 2) (w ! (WORLD_SIZE div 2) ! (WORLD_SIZE div 2))"
    by (rule G(3)) (simp_all add: WORLD_SIZE_def)
  then have "\<not> spawnCandidate (heap e) (w ! (WORLD_SIZE div 2) ! (WORLD_SIZE div 2))"
    using corner_center(3) by (simp add: tileGen_def spawnCandidate_def)
  then have nc: "spawnOf rs \<noteq> (WORLD_SIZE div 2, WORLD_SIZE div 2)" using cd by auto
  have "isWalkable g (real (fst (spawnOf rs))) (real (snd (spawnOf rs)))"
    by (rule candidate_walkable[OF wf xs ys]) (simp add: wg hg cd)
  then have wk: "isWalkable g (p_x (player g)) (p_y (player g))"
    by (simp add: pg createPlayer_def)
  have nw: "ttype (w ! fst (spawnOf rs) ! snd (spawnOf rs)) \<noteq> Water"
    using cd by (simp add: spawnCandidate_def)
  have dk: "case decoration (w ! fst (spawnOf rs) ! snd (spawnOf rs)) of
            None \<Rightarrow> True | Some r \<Rightarrow> dtype (heap e r) = FlowerDeco"
  proof (cases "decoration (w ! fst (spawnOf rs) ! snd (spawnOf rs))")
    case None
    then show ?thesis by simp
  next
    case (Some r)
    then have "dtype (heap e r) \<noteq> TreeDeco \<and> dtype (heap e r) \<noteq> RockDeco"
      using cd by (simp add: spawnCandidate_def)
    then have "dtype (heap e r) = FlowerDeco" by (cases "dtype (heap e r)") simp_all
    then show ?thesis using Some by simp
  qed
  show ?thesis
    using ne mem nc pg xs ys wk nw dk unfolding g_def[symmetric] wg hg by simp
qed

lemma demo_spawnOf: "spawnOf demoRnd = (0, 1)"
  unfolding spawnOf_def gen_demo fst_conv snd_conv demo_spawn by simp

theorem spawn_valid_witness:
  "(0, 1) \<in> set (validPositions (world demoGame) (heap demoGame)) \<and>
   spawnOf demoRnd = (0, 1) \<and> (0, 1) \<noteq> (WORLD_SIZE div 2, WORLD_SIZE div 2) \<and>
   player demoGame = createPlayer 0 1 \<and>
   isWalkable demoGame 0 1 \<and>
   ttype (world demoGame ! 0 ! 1) \<noteq> Water \<and> decoration (world demoGame ! 0 ! 1) = None"
proof -
  have r: "\<forall>n. 0 \<le> demoRnd n \<and> demoRnd n < 1" using demoRnd_range by simp
  have d: "decoration (world demoGame ! 0 ! 1) = None"
    using demo_tile[of 0 1] by (simp add: WORLD_SIZE_def demoTile_def)
  have p: "p_x (player demoGame) = 0" "p_y (player demoGame) = 1" by (simp_all add: demo_fields)
  show ?thesis
    using spawn_valid[OF r, of 0] d
    by (simp add: init_demo demo_spawnOf p)
qed

end
